theory Spec2Isabelle
  imports Main
begin

section \<open>The ESP32 traffic light sketch\<close>

text \<open>
  A shallow embedding of \<^verbatim>\<open>src/esp32sketch.ino\<close>. The sketch keeps four global lane
  records, a 64-byte line buffer with a cursor, and talks to the outside through three
  Arduino primitives: \<^verbatim>\<open>pinMode\<close>, \<^verbatim>\<open>digitalWrite\<close> and \<^verbatim>\<open>Serial.print/println\<close>.
  The globals and the effects of the primitives are the fields of one state record, which
  every function of the sketch takes and returns.
\<close>

subsection \<open>Constants\<close>

definition NR_PIN :: int where "NR_PIN = 23"

definition NY_PIN :: int where "NY_PIN = 22"

definition NG_PIN :: int where "NG_PIN = 21"

definition ER_PIN :: int where "ER_PIN = 17"

definition EY_PIN :: int where "EY_PIN = 18"

definition EG_PIN :: int where "EG_PIN = 19"

definition SR_PIN :: int where "SR_PIN = 13"

definition SY_PIN :: int where "SY_PIN = 12"

definition SG_PIN :: int where "SG_PIN = 14"

definition WR_PIN :: int where "WR_PIN = 25"

definition WY_PIN :: int where "WY_PIN = 26"

definition WG_PIN :: int where "WG_PIN = 27"

definition SERIAL_BUFFER_SIZE :: nat where "SERIAL_BUFFER_SIZE = 64"

lemmas pin_defs =
  NR_PIN_def NY_PIN_def NG_PIN_def ER_PIN_def EY_PIN_def EG_PIN_def
  SR_PIN_def SY_PIN_def SG_PIN_def WR_PIN_def WY_PIN_def WG_PIN_def

text \<open>The levels of \<^verbatim>\<open>digitalWrite\<close> and the characters the sketch compares with.\<close>

abbreviation (input) LOW :: bool where "LOW \<equiv> False"

abbreviation (input) HIGH :: bool where "HIGH \<equiv> True"

abbreviation NUL :: char where "NUL \<equiv> CHR 0x00"

abbreviation NEWLINE :: char where "NEWLINE \<equiv> CHR 0x0A"

abbreviation COMMA :: char where "COMMA \<equiv> CHR '',''"

abbreviation COLON :: char where "COLON \<equiv> CHR '':''"

subsection \<open>Data\<close>

text \<open>\<^verbatim>\<open>struct LaneLeds\<close>: three pin numbers and the letter of the lamp that is lit.\<close>

record LaneLeds =
  redPin :: int
  yellowPin :: int
  greenPin :: int
  currentLed :: char

text \<open>
  The four globals \<^verbatim>\<open>northLane\<close>, \<^verbatim>\<open>eastLane\<close>, \<^verbatim>\<open>southLane\<close>, \<^verbatim>\<open>westLane\<close> are passed to
  \<^verbatim>\<open>setLaneState\<close> by reference; a reference is modelled by the name of the global.
\<close>

datatype lane_ref = North | East | South | West

text \<open>
  The state: the globals of the sketch, and what the Arduino primitives act on.
  \<^item> \<open>pin_mode p\<close> holds when \<^verbatim>\<open>pinMode(p, OUTPUT)\<close> has been called;
  \<^item> \<open>pin_level p\<close> is the level last written to pin \<open>p\<close>;
  \<^item> \<open>pin_log\<close> lists the calls of \<^verbatim>\<open>digitalWrite\<close> in the order they were made;
  \<^item> \<open>serial_out\<close> is every byte written to the serial port so far.
  \<^verbatim>\<open>serialBufferIndex\<close> is an \<^verbatim>\<open>int\<close> that the sketch only resets to 0 and increments
  below 63, so it is a natural number here.
\<close>

record state =
  northLane :: LaneLeds
  eastLane :: LaneLeds
  southLane :: LaneLeds
  westLane :: LaneLeds
  serialBuffer :: "char list"
  serialBufferIndex :: nat
  pin_mode :: "int \<Rightarrow> bool"
  pin_level :: "int \<Rightarrow> bool"
  pin_log :: "(int \<times> bool) list"
  serial_out :: string

fun get_lane :: "lane_ref \<Rightarrow> state \<Rightarrow> LaneLeds" where
  "get_lane North st = northLane st"
| "get_lane East st = eastLane st"
| "get_lane South st = southLane st"
| "get_lane West st = westLane st"

fun put_lane :: "lane_ref \<Rightarrow> LaneLeds \<Rightarrow> state \<Rightarrow> state" where
  "put_lane North v st = st\<lparr>northLane := v\<rparr>"
| "put_lane East v st = st\<lparr>eastLane := v\<rparr>"
| "put_lane South v st = st\<lparr>southLane := v\<rparr>"
| "put_lane West v st = st\<lparr>westLane := v\<rparr>"

subsection \<open>Arduino primitives\<close>

definition pinMode_OUTPUT :: "int \<Rightarrow> state \<Rightarrow> state" where
  "pinMode_OUTPUT p st = st\<lparr>pin_mode := (pin_mode st)(p := True)\<rparr>"

definition digitalWrite :: "int \<Rightarrow> bool \<Rightarrow> state \<Rightarrow> state" where
  "digitalWrite p v st =
     st\<lparr>pin_level := (pin_level st)(p := v), pin_log := pin_log st @ [(p, v)]\<rparr>"

definition Serial_print :: "string \<Rightarrow> state \<Rightarrow> state" where
  "Serial_print s st = st\<lparr>serial_out := serial_out st @ s\<rparr>"

text \<open>\<^verbatim>\<open>Serial.println\<close> writes its argument, then carriage return and line feed.\<close>

definition CRLF :: string where
  "CRLF = [CHR 0x0D, CHR 0x0A]"

definition Serial_println :: "string \<Rightarrow> state \<Rightarrow> state" where
  "Serial_println s st = st\<lparr>serial_out := serial_out st @ s @ CRLF\<rparr>"

subsection \<open>setLaneState\<close>

definition setLaneState :: "lane_ref \<Rightarrow> char \<Rightarrow> state \<Rightarrow> state" where
  "setLaneState l c st =
     (let lane = get_lane l st;
          st1 = digitalWrite (redPin lane) LOW st;
          st2 = digitalWrite (yellowPin lane) LOW st1;
          st3 = digitalWrite (greenPin lane) LOW st2;
          st4 = put_lane l ((get_lane l st3)\<lparr>currentLed := CHR ''O''\<rparr>) st3
      in if c = CHR ''R'' then
           (let st5 = digitalWrite (redPin lane) HIGH st4
            in put_lane l ((get_lane l st5)\<lparr>currentLed := CHR ''R''\<rparr>) st5)
         else if c = CHR ''Y'' then
           (let st5 = digitalWrite (yellowPin lane) HIGH st4
            in put_lane l ((get_lane l st5)\<lparr>currentLed := CHR ''Y''\<rparr>) st5)
         else if c = CHR ''G'' then
           (let st5 = digitalWrite (greenPin lane) HIGH st4
            in put_lane l ((get_lane l st5)\<lparr>currentLed := CHR ''G''\<rparr>) st5)
         else
           (let st5 = Serial_print (''Unknown light state '' @ [CHR 0x27]) st4;
                st6 = Serial_print [c] st5
            in Serial_println ([CHR 0x27] @ '' for a lane. Turning all off.'') st6))"

subsection \<open>Start-up\<close>

text \<open>
  The state when \<^verbatim>\<open>setup\<close> is entered: the globals hold their initialisers (a global
  array is zero-filled), nothing has been written to the serial port, and the modes and
  levels of the pins are whatever the hardware left there.
\<close>

definition boot :: "(int \<Rightarrow> bool) \<Rightarrow> (int \<Rightarrow> bool) \<Rightarrow> state" where
  "boot modes levels =
     \<lparr>northLane = \<lparr>redPin = NR_PIN, yellowPin = NY_PIN, greenPin = NG_PIN, currentLed = CHR ''R''\<rparr>,
      eastLane = \<lparr>redPin = ER_PIN, yellowPin = EY_PIN, greenPin = EG_PIN, currentLed = CHR ''R''\<rparr>,
      southLane = \<lparr>redPin = SR_PIN, yellowPin = SY_PIN, greenPin = SG_PIN, currentLed = CHR ''R''\<rparr>,
      westLane = \<lparr>redPin = WR_PIN, yellowPin = WY_PIN, greenPin = WG_PIN, currentLed = CHR ''R''\<rparr>,
      serialBuffer = replicate SERIAL_BUFFER_SIZE NUL,
      serialBufferIndex = 0,
      pin_mode = modes,
      pin_level = levels,
      pin_log = [],
      serial_out = []\<rparr>"

text \<open>
  \<^verbatim>\<open>setup\<close>, under the name \<open>setup_sketch\<close> since \<^verbatim>\<open>setup\<close> is a keyword of Isabelle.
  \<^verbatim>\<open>Serial.begin\<close> only fixes the baud rate, which has no part in the state. The second
  greeting contains a backslash followed by the letter n.
\<close>

definition setup_sketch :: "state \<Rightarrow> state" where
  "setup_sketch st0 =
     (let st = Serial_println ''ESP32 Traffic Light Controller Initialized.'' st0;
          st = Serial_println
                 (''Waiting for commands (e.g., N:G,E:R,S:R,W:R'' @ [CHR 0x5C] @ ''n)...'') st;
          st = pinMode_OUTPUT NR_PIN st;
          st = pinMode_OUTPUT NY_PIN st;
          st = pinMode_OUTPUT NG_PIN st;
          st = pinMode_OUTPUT ER_PIN st;
          st = pinMode_OUTPUT EY_PIN st;
          st = pinMode_OUTPUT EG_PIN st;
          st = pinMode_OUTPUT SR_PIN st;
          st = pinMode_OUTPUT SY_PIN st;
          st = pinMode_OUTPUT SG_PIN st;
          st = pinMode_OUTPUT WR_PIN st;
          st = pinMode_OUTPUT WY_PIN st;
          st = pinMode_OUTPUT WG_PIN st;
          st = setLaneState North (CHR ''R'') st;
          st = setLaneState East (CHR ''R'') st;
          st = setLaneState South (CHR ''R'') st
      in setLaneState West (CHR ''R'') st)"

subsection \<open>C strings in the line buffer\<close>

text \<open>
  \<^verbatim>\<open>processCommand\<close> receives a pointer into \<^verbatim>\<open>serialBuffer\<close> and reads it with the C
  library: a pointer is an offset into the buffer, and the string at an offset runs up
  to the first NUL byte. \<^verbatim>\<open>strspn\<close> and \<^verbatim>\<open>strcspn\<close> with the delimiter set \<^verbatim>\<open>","\<close> measure
  the run of commas, and the run of bytes that are neither a comma nor NUL.
\<close>

definition c_str :: "char list \<Rightarrow> nat \<Rightarrow> string" where
  "c_str mem p = takeWhile (\<lambda>c. c \<noteq> NUL) (drop p mem)"

definition strspn_comma :: "char list \<Rightarrow> nat \<Rightarrow> nat" where
  "strspn_comma mem p = length (takeWhile (\<lambda>c. c = COMMA) (drop p mem))"

definition strcspn_comma :: "char list \<Rightarrow> nat \<Rightarrow> nat" where
  "strcspn_comma mem p = length (takeWhile (\<lambda>c. c \<noteq> COMMA \<and> c \<noteq> NUL) (drop p mem))"

text \<open>
  \<^verbatim>\<open>strtok\<close> of the C library, continuing at offset \<open>s\<close> (the first call of the sketch
  passes the start of the command, the later ones pass \<^verbatim>\<open>NULL\<close> and continue at the
  pointer \<^verbatim>\<open>strtok\<close> saved). It skips commas; at the end of the string it returns
  \<^verbatim>\<open>NULL\<close>; otherwise the token starts there, runs to the next comma or the end of the
  string, and a comma that ends it is overwritten with NUL. The result is the token
  (if any), the buffer, and the saved pointer. A read past the end of the buffer, which
  the sketch never makes since it terminates the buffer first, ends the scan.
\<close>

definition strtok :: "char list \<Rightarrow> nat \<Rightarrow> nat option \<times> char list \<times> nat" where
  "strtok mem s =
     (let tok = s + strspn_comma mem s
      in if length mem \<le> tok \<or> mem ! tok = NUL then (None, mem, tok)
         else
           (let e = tok + strcspn_comma mem tok
            in if length mem \<le> e \<or> mem ! e = NUL then (Some tok, mem, e)
               else (Some tok, mem[e := NUL], e + 1)))"

subsection \<open>processCommand\<close>

text \<open>
  The body of the \<^verbatim>\<open>while\<close> loop, on the token \<^verbatim>\<open>part\<close> read as a C string. The second
  test of \<^verbatim>\<open>strlen(part) == 3 && part[1] == ':'\<close> is only evaluated when the first holds.
\<close>

definition process_part :: "string \<Rightarrow> state \<Rightarrow> state" where
  "process_part part st =
     (if length part = 3 \<and> part ! 1 = COLON then
        (let laneCode = part ! 0;
             lightState = part ! 2
         in if laneCode = CHR ''N'' then setLaneState North lightState st
            else if laneCode = CHR ''E'' then setLaneState East lightState st
            else if laneCode = CHR ''S'' then setLaneState South lightState st
            else if laneCode = CHR ''W'' then setLaneState West lightState st
            else Serial_println [laneCode] (Serial_print ''Unknown lane code: '' st))
      else Serial_println part (Serial_print ''Malformed command part: '' st))"

text \<open>
  The \<^verbatim>\<open>while (part != NULL)\<close> loop, with the pointer \<^verbatim>\<open>strtok\<close> saved. Tokens are read
  from, and \<^verbatim>\<open>strtok\<close> writes to, the global buffer. The loop terminates on every
  buffer: the proof comes after the definitions.
\<close>

function command_loop :: "nat option \<Rightarrow> nat \<Rightarrow> state \<Rightarrow> state" where
  "command_loop None save st = st"
| "command_loop (Some part) save st =
     (let st1 = process_part (c_str (serialBuffer st) part) st
      in case strtok (serialBuffer st1) save of
           (part', mem', save') \<Rightarrow> command_loop part' save' (st1\<lparr>serialBuffer := mem'\<rparr>))"
  by pat_completeness auto

text \<open>
  \<^verbatim>\<open>processCommand\<close>. Its only caller passes \<^verbatim>\<open>serialBuffer\<close>, so \<^verbatim>\<open>command\<close> is offset 0.
\<close>

definition processCommand :: "state \<Rightarrow> state" where
  "processCommand st =
     (let st1 = Serial_print ''Received command: '' st;
          st2 = Serial_println (c_str (serialBuffer st1) 0) st1
      in case strtok (serialBuffer st2) 0 of
           (part, mem', save) \<Rightarrow> command_loop part save (st2\<lparr>serialBuffer := mem'\<rparr>))"

subsection \<open>loop\<close>

text \<open>
  One pass of \<^verbatim>\<open>loop\<close>: \<open>None\<close> when \<^verbatim>\<open>Serial.available()\<close> is 0, otherwise the byte
  \<^verbatim>\<open>Serial.read()\<close> returns.
\<close>

definition loop :: "char option \<Rightarrow> state \<Rightarrow> state" where
  "loop avail st =
     (case avail of
        None \<Rightarrow> st
      | Some incomingChar \<Rightarrow>
          if incomingChar = NEWLINE then
            (let st1 = st\<lparr>serialBuffer := (serialBuffer st)[serialBufferIndex st := NUL]\<rparr>;
                 st2 = processCommand st1
             in st2\<lparr>serialBufferIndex := 0\<rparr>)
          else if serialBufferIndex st < SERIAL_BUFFER_SIZE - 1 then
            st\<lparr>serialBuffer := (serialBuffer st)[serialBufferIndex st := incomingChar],
               serialBufferIndex := serialBufferIndex st + 1\<rparr>
          else
            (Serial_println ''Error: Serial buffer overflow. Command ignored.'' st)
              \<lparr>serialBufferIndex := 0\<rparr>)"

text \<open>The sketch running while the bytes of \<open>bs\<close> arrive, one pass of \<^verbatim>\<open>loop\<close> for each.\<close>

definition feed :: "string \<Rightarrow> state \<Rightarrow> state" where
  "feed bs st = fold (\<lambda>b. loop (Some b)) bs st"

section \<open>Notions the properties are stated with\<close>

text \<open>The letter \<^verbatim>\<open>setLaneState\<close> records for a requested state.\<close>

definition recorded :: "char \<Rightarrow> char" where
  "recorded c = (if c = CHR ''R'' \<or> c = CHR ''Y'' \<or> c = CHR ''G'' then c else CHR ''O'')"

text \<open>
  The three output lines of a lane, red, yellow, green, as the pins its record names, and
  their levels: the lamps of the lane. An output is active when its level is HIGH.
\<close>

definition lane_pins :: "lane_ref \<Rightarrow> state \<Rightarrow> int list" where
  "lane_pins l st = [redPin (get_lane l st), yellowPin (get_lane l st), greenPin (get_lane l st)]"

definition lamps :: "lane_ref \<Rightarrow> state \<Rightarrow> bool list" where
  "lamps l st = map (pin_level st) (lane_pins l st)"

definition active_outputs :: "lane_ref \<Rightarrow> state \<Rightarrow> nat" where
  "active_outputs l st = length (filter id (lamps l st))"

text \<open>
  The pins the sketch declares for each lane. A state is wired when its four lane records
  name these pins; the sketch never assigns the pin fields, so every state it runs in is.
\<close>

fun declared_pins :: "lane_ref \<Rightarrow> int list" where
  "declared_pins North = [NR_PIN, NY_PIN, NG_PIN]"
| "declared_pins East = [ER_PIN, EY_PIN, EG_PIN]"
| "declared_pins South = [SR_PIN, SY_PIN, SG_PIN]"
| "declared_pins West = [WR_PIN, WY_PIN, WG_PIN]"

definition wired :: "state \<Rightarrow> bool" where
  "wired st = list_all (\<lambda>l. lane_pins l st = declared_pins l) [North, East, South, West]"

text \<open>
  The states the sketch can be in between two passes of \<^verbatim>\<open>loop\<close>: the one \<^verbatim>\<open>setup\<close> leaves,
  from any condition of the pins at power-up, and those any further pass leads to.
\<close>

inductive reachable :: "state \<Rightarrow> bool" where
  after_setup: "reachable (setup_sketch (boot modes levels))"
| after_loop: "reachable st \<Longrightarrow> reachable (loop avail st)"

text \<open>The recorded letter agrees with the lamps, in every lane.\<close>

definition lamps_match :: "state \<Rightarrow> bool" where
  "lamps_match st =
     list_all (\<lambda>l. lamps l st =
        [currentLed (get_lane l st) = CHR ''R'', currentLed (get_lane l st) = CHR ''Y'',
         currentLed (get_lane l st) = CHR ''G'']) [North, East, South, West]"

text \<open>The wiring and the agreement of letters and lamps, together.\<close>

definition lanes_ok :: "state \<Rightarrow> bool" where
  "lanes_ok st \<longleftrightarrow> wired st \<and> lamps_match st"

text \<open>
  The specification of the parser: a line is split at its commas into segments, some of
  which may be empty. \<open>split_commas\<close> is this split as the specification words it;
  \<open>segments\<close> keeps the segments that are not empty.
\<close>

fun split_commas :: "string \<Rightarrow> string list" where
  "split_commas [] = [[]]"
| "split_commas (c # cs) =
     (if c = COMMA then [] # split_commas cs
      else (case split_commas cs of [] \<Rightarrow> [[c]] | t # ts \<Rightarrow> (c # t) # ts))"

definition segments :: "string \<Rightarrow> string list" where
  "segments s = filter (\<lambda>t. t \<noteq> []) (split_commas s)"

text \<open>
  A state with the contents of the line buffer blanked: two states with the same image
  agree in the lanes, the pins, the serial output and the cursor of the buffer.
\<close>

definition ignoring_buffer :: "state \<Rightarrow> state" where
  "ignoring_buffer st = st\<lparr>serialBuffer := []\<rparr>"

text \<open>
  The specification of \<^verbatim>\<open>processCommand\<close> on the command \<open>cmd\<close>: the echo, then the body
  of the loop on each segment of \<open>cmd\<close> that is not empty, in the order of the line.
\<close>

definition run_line :: "string \<Rightarrow> state \<Rightarrow> state" where
  "run_line cmd st =
     fold process_part (segments cmd)
       (Serial_println cmd (Serial_print ''Received command: '' st))"

text \<open>
  The accumulator is ready for a line when the buffer has its 64 bytes and the cursor is
  at its start: so it is after \<^verbatim>\<open>setup\<close>, after every newline, and after an overflow.
\<close>

definition ready :: "state \<Rightarrow> bool" where
  "ready st \<longleftrightarrow> length (serialBuffer st) = SERIAL_BUFFER_SIZE \<and> serialBufferIndex st = 0"

text \<open>The letters the \<^verbatim>\<open>switch\<close> of \<^verbatim>\<open>processCommand\<close> maps to the four lanes.\<close>

fun lane_code :: "lane_ref \<Rightarrow> char" where
  "lane_code North = CHR ''N''"
| "lane_code East = CHR ''E''"
| "lane_code South = CHR ''S''"
| "lane_code West = CHR ''W''"

text \<open>The segment of the wire grammar for a lane and a state character.\<close>

definition directive :: "lane_ref \<Rightarrow> char \<Rightarrow> string" where
  "directive l c = [lane_code l, COLON, c]"

text \<open>
  A line of the wire grammar: directives separated by commas. The grammar asks
  for at least one.
\<close>

fun wire_line :: "(lane_ref \<times> char) list \<Rightarrow> string" where
  "wire_line [] = []"
| "wire_line [(l, c)] = directive l c"
| "wire_line ((l, c) # d # ds) = directive l c @ COMMA # wire_line (d # ds)"

text \<open>The calls of \<^verbatim>\<open>setLaneState\<close> a list of directives stands for, first to last.\<close>

definition apply_directives :: "(lane_ref \<times> char) list \<Rightarrow> state \<Rightarrow> state" where
  "apply_directives ds st = fold (\<lambda>(l, c). setLaneState l c) ds st"

text \<open>The diagnostic \<^verbatim>\<open>setLaneState\<close> prints for a state character it does not know.\<close>

definition unknown_state_diagnostic :: "char \<Rightarrow> string" where
  "unknown_state_diagnostic c =
     ''Unknown light state '' @ [CHR 0x27] @ [c] @ [CHR 0x27] @
     '' for a lane. Turning all off.'' @ CRLF"

text \<open>
  The levels of the pins after each of a list of writes, starting from the levels \<open>lv\<close>;
  the writes one call of \<^verbatim>\<open>setLaneState\<close> makes; and the lamps of the lane after each
  of them: what the lane shows while the call runs.
\<close>

fun replay :: "(int \<Rightarrow> bool) \<Rightarrow> (int \<times> bool) list \<Rightarrow> (int \<Rightarrow> bool) list" where
  "replay lv [] = []"
| "replay lv ((p, v) # ws) = lv(p := v) # replay (lv(p := v)) ws"

definition call_writes :: "lane_ref \<Rightarrow> char \<Rightarrow> state \<Rightarrow> (int \<times> bool) list" where
  "call_writes l c st = drop (length (pin_log st)) (pin_log (setLaneState l c st))"

definition lamp_trace :: "lane_ref \<Rightarrow> char \<Rightarrow> state \<Rightarrow> bool list list" where
  "lamp_trace l c st =
     map (\<lambda>lv. map lv (lane_pins l st)) (replay (pin_level st) (call_writes l c st))"

section \<open>Termination of the command loop\<close>

text \<open>
  Every call of \<^verbatim>\<open>strtok\<close> that returns a token moves the saved pointer forward, and the
  pointer never passes the end of the buffer.
\<close>

lemma serialBuffer_setLaneState [simp]:
  "serialBuffer (setLaneState l c st) = serialBuffer st"
  by (cases l) (simp_all add: setLaneState_def Let_def digitalWrite_def Serial_print_def
      Serial_println_def)

lemma serialBuffer_process_part [simp]:
  "serialBuffer (process_part part st) = serialBuffer st"
  by (simp add: process_part_def Let_def Serial_print_def Serial_println_def)

lemma strtok_length:
  "strtok mem s = (part, mem', save) \<Longrightarrow> length mem' = length mem"
  by (auto simp: strtok_def Let_def split: if_splits)

lemma strspn_comma_stop:
  "s + strspn_comma mem s < length mem \<Longrightarrow> mem ! (s + strspn_comma mem s) \<noteq> COMMA"
proof -
  assume a: "s + strspn_comma mem s < length mem"
  let ?d = "drop s mem"
  let ?k = "length (takeWhile (\<lambda>c. c = COMMA) ?d)"
  from a have k: "?k < length ?d" by (simp add: strspn_comma_def)
  then have "\<not> (?d ! ?k = COMMA)" by (rule nth_length_takeWhile)
  moreover from a have "?d ! ?k = mem ! (s + ?k)" by (simp add: strspn_comma_def)
  ultimately show ?thesis by (simp add: strspn_comma_def)
qed

lemma strcspn_comma_pos:
  "tok < length mem \<Longrightarrow> mem ! tok \<noteq> COMMA \<Longrightarrow> mem ! tok \<noteq> NUL \<Longrightarrow> 0 < strcspn_comma mem tok"
  by (cases "drop tok mem") (auto simp: strcspn_comma_def hd_drop_conv_nth dest!: arg_cong [where f = hd])

lemma strtok_progress:
  assumes "strtok mem s = (part, mem', save)"
  shows "s \<le> save" and "part \<noteq> None \<Longrightarrow> s < save \<and> s < length mem"
proof -
  show "s \<le> save" using assms by (auto simp: strtok_def Let_def split: if_splits)
  show "s < save \<and> s < length mem" if "part \<noteq> None"
  proof -
    let ?tok = "s + strspn_comma mem s"
    from assms that have t: "?tok < length mem" "mem ! ?tok \<noteq> NUL"
      by (auto simp: strtok_def Let_def split: if_splits)
    then have "0 < strcspn_comma mem ?tok"
      by (intro strcspn_comma_pos strspn_comma_stop)
    with assms that t show ?thesis by (auto simp: strtok_def Let_def split: if_splits)
  qed
qed

lemma command_loop_measure:
  assumes "strtok mem save = (part', mem', save')"
  shows "2 * (length mem' - save') + (case part' of None \<Rightarrow> 0 | Some _ \<Rightarrow> 1)
         < 2 * (length mem - save) + (1::nat)"
proof -
  have len: "length mem' = length mem" using assms by (rule strtok_length)
  show ?thesis
  proof (cases part')
    case None
    with strtok_progress(1) [OF assms] len show ?thesis by simp
  next
    case (Some a)
    with strtok_progress(2) [OF assms] len show ?thesis by auto
  qed
qed

termination command_loop
  apply (relation "measure (\<lambda>(part, save, st).
         2 * (length (serialBuffer st) - save) + (case part of None \<Rightarrow> 0 | Some _ \<Rightarrow> 1))")
   apply simp
  apply (auto dest!: sym [where t = "strtok _ _"] command_loop_measure)
  done

section \<open>Effects of the primitives and of setLaneState\<close>

subsection \<open>What each primitive changes\<close>

lemma get_lane_put_lane [simp]:
  "get_lane l' (put_lane l v st) = (if l' = l then v else get_lane l' st)"
  by (cases l; cases l') simp_all

lemma put_lane_sel [simp]:
  "serialBuffer (put_lane l v st) = serialBuffer st"
  "serialBufferIndex (put_lane l v st) = serialBufferIndex st"
  "pin_mode (put_lane l v st) = pin_mode st"
  "pin_level (put_lane l v st) = pin_level st"
  "pin_log (put_lane l v st) = pin_log st"
  "serial_out (put_lane l v st) = serial_out st"
  by (cases l; simp)+

lemma digitalWrite_sel [simp]:
  "get_lane l (digitalWrite p v st) = get_lane l st"
  "serialBuffer (digitalWrite p v st) = serialBuffer st"
  "serialBufferIndex (digitalWrite p v st) = serialBufferIndex st"
  "pin_mode (digitalWrite p v st) = pin_mode st"
  "pin_level (digitalWrite p v st) = (pin_level st)(p := v)"
  "pin_log (digitalWrite p v st) = pin_log st @ [(p, v)]"
  "serial_out (digitalWrite p v st) = serial_out st"
  by (cases l; simp add: digitalWrite_def)+

lemma Serial_print_sel [simp]:
  "get_lane l (Serial_print s st) = get_lane l st"
  "serialBuffer (Serial_print s st) = serialBuffer st"
  "serialBufferIndex (Serial_print s st) = serialBufferIndex st"
  "pin_mode (Serial_print s st) = pin_mode st"
  "pin_level (Serial_print s st) = pin_level st"
  "pin_log (Serial_print s st) = pin_log st"
  "serial_out (Serial_print s st) = serial_out st @ s"
  by (cases l; simp add: Serial_print_def)+

lemma Serial_println_sel [simp]:
  "get_lane l (Serial_println s st) = get_lane l st"
  "serialBuffer (Serial_println s st) = serialBuffer st"
  "serialBufferIndex (Serial_println s st) = serialBufferIndex st"
  "pin_mode (Serial_println s st) = pin_mode st"
  "pin_level (Serial_println s st) = pin_level st"
  "pin_log (Serial_println s st) = pin_log st"
  "serial_out (Serial_println s st) = serial_out st @ s @ CRLF"
  by (cases l; simp add: Serial_println_def)+

lemma pinMode_OUTPUT_sel [simp]:
  "get_lane l (pinMode_OUTPUT p st) = get_lane l st"
  "serialBuffer (pinMode_OUTPUT p st) = serialBuffer st"
  "serialBufferIndex (pinMode_OUTPUT p st) = serialBufferIndex st"
  "pin_mode (pinMode_OUTPUT p st) = (pin_mode st)(p := True)"
  "pin_level (pinMode_OUTPUT p st) = pin_level st"
  "pin_log (pinMode_OUTPUT p st) = pin_log st"
  "serial_out (pinMode_OUTPUT p st) = serial_out st"
  by (cases l; simp add: pinMode_OUTPUT_def)+

lemma get_lane_buffer_update [simp]:
  "get_lane l (st\<lparr>serialBuffer := m\<rparr>) = get_lane l st"
  "get_lane l (st\<lparr>serialBufferIndex := i\<rparr>) = get_lane l st"
  by (cases l; simp)+

lemma buffer_update_commute [simp]:
  "put_lane l v (st\<lparr>serialBuffer := m\<rparr>) = (put_lane l v st)\<lparr>serialBuffer := m\<rparr>"
  "digitalWrite p b (st\<lparr>serialBuffer := m\<rparr>) = (digitalWrite p b st)\<lparr>serialBuffer := m\<rparr>"
  "Serial_print s (st\<lparr>serialBuffer := m\<rparr>) = (Serial_print s st)\<lparr>serialBuffer := m\<rparr>"
  "Serial_println s (st\<lparr>serialBuffer := m\<rparr>) = (Serial_println s st)\<lparr>serialBuffer := m\<rparr>"
  by (cases l; simp add: digitalWrite_def Serial_print_def Serial_println_def)+

declare get_lane.simps [simp del] put_lane.simps [simp del]

subsection \<open>What setLaneState changes\<close>

lemma get_lane_setLaneState:
  "get_lane l' (setLaneState l c st) =
     (if l' = l then (get_lane l st)\<lparr>currentLed := recorded c\<rparr> else get_lane l' st)"
  by (simp add: setLaneState_def Let_def recorded_def)

lemma setLaneState_sel [simp]:
  "serialBufferIndex (setLaneState l c st) = serialBufferIndex st"
  "pin_mode (setLaneState l c st) = pin_mode st"
  by (simp_all add: setLaneState_def Let_def)

lemma pin_level_setLaneState:
  "pin_level (setLaneState l c st) =
     (let lane = get_lane l st;
          off = (pin_level st)(redPin lane := False, yellowPin lane := False, greenPin lane := False)
      in if c = CHR ''R'' then off(redPin lane := True)
         else if c = CHR ''Y'' then off(yellowPin lane := True)
         else if c = CHR ''G'' then off(greenPin lane := True)
         else off)"
  by (simp add: setLaneState_def Let_def)

lemma pin_log_setLaneState:
  "pin_log (setLaneState l c st) =
     (let lane = get_lane l st
      in pin_log st @ [(redPin lane, False), (yellowPin lane, False), (greenPin lane, False)] @
         (if c = CHR ''R'' then [(redPin lane, True)]
          else if c = CHR ''Y'' then [(yellowPin lane, True)]
          else if c = CHR ''G'' then [(greenPin lane, True)]
          else []))"
  by (simp add: setLaneState_def Let_def)

lemma serial_out_setLaneState:
  "serial_out (setLaneState l c st) =
     serial_out st @
       (if c = CHR ''R'' \<or> c = CHR ''Y'' \<or> c = CHR ''G'' then []
        else ''Unknown light state '' @ [CHR 0x27] @ [c] @ [CHR 0x27] @
             '' for a lane. Turning all off.'' @ CRLF)"
  by (simp add: setLaneState_def Let_def)

lemma setLaneState_buffer_update:
  "setLaneState l c (st\<lparr>serialBuffer := m\<rparr>) = (setLaneState l c st)\<lparr>serialBuffer := m\<rparr>"
  by (simp add: setLaneState_def Let_def)

section \<open>Lamps and wiring\<close>

lemma wiredD: "wired st \<Longrightarrow> lane_pins l st = declared_pins l"
  by (cases l) (simp_all add: wired_def)

lemma wiredI: "(\<And>l. lane_pins l st = declared_pins l) \<Longrightarrow> wired st"
  by (simp add: wired_def)

lemma lamps_matchD:
  "lamps_match st \<Longrightarrow> lamps l st =
     [currentLed (get_lane l st) = CHR ''R'', currentLed (get_lane l st) = CHR ''Y'',
      currentLed (get_lane l st) = CHR ''G'']"
  by (cases l) (simp_all add: lamps_match_def)

lemma lamps_matchI:
  "(\<And>l. lamps l st =
     [currentLed (get_lane l st) = CHR ''R'', currentLed (get_lane l st) = CHR ''Y'',
      currentLed (get_lane l st) = CHR ''G'']) \<Longrightarrow> lamps_match st"
  by (simp add: lamps_match_def)

lemma declared_pins_distinct: "distinct (declared_pins l)"
  by (cases l) (simp_all add: pin_defs)

lemma declared_pins_disjoint: "l' \<noteq> l \<Longrightarrow> set (declared_pins l') \<inter> set (declared_pins l) = {}"
  by (cases l; cases l') (simp_all add: pin_defs)

lemma lane_pins_setLaneState [simp]: "lane_pins l' (setLaneState l c st) = lane_pins l' st"
  by (simp add: lane_pins_def get_lane_setLaneState)

lemma wired_setLaneState [simp]: "wired (setLaneState l c st) = wired st"
  by (simp add: wired_def)

lemma lamps_setLaneState:
  assumes "wired st"
  shows "lamps l (setLaneState l c st) = [c = CHR ''R'', c = CHR ''Y'', c = CHR ''G'']"
proof -
  have "lane_pins l st = declared_pins l" using assms by (rule wiredD)
  then have "distinct (lane_pins l st)" by (simp add: declared_pins_distinct)
  then have "redPin (get_lane l st) \<noteq> yellowPin (get_lane l st)"
    "redPin (get_lane l st) \<noteq> greenPin (get_lane l st)"
    "yellowPin (get_lane l st) \<noteq> greenPin (get_lane l st)"
    by (simp_all add: lane_pins_def)
  then show ?thesis
    by (simp add: lamps_def pin_level_setLaneState Let_def lane_pins_def get_lane_setLaneState)
qed

lemma pin_level_other_setLaneState:
  assumes "p \<notin> set (lane_pins l st)"
  shows "pin_level (setLaneState l c st) p = pin_level st p"
  using assms by (simp add: pin_level_setLaneState Let_def lane_pins_def)

lemma lamps_other_setLaneState:
  assumes "wired st" and "l' \<noteq> l"
  shows "lamps l' (setLaneState l c st) = lamps l' st"
proof -
  have "set (lane_pins l' st) \<inter> set (lane_pins l st) = {}"
    using assms by (simp add: wiredD declared_pins_disjoint)
  then have "\<And>p. p \<in> set (lane_pins l' st) \<Longrightarrow> p \<notin> set (lane_pins l st)"
    by blast
  then show ?thesis
    by (simp add: lamps_def pin_level_other_setLaneState)
qed

lemma recorded_eq [simp]:
  "recorded c = CHR ''R'' \<longleftrightarrow> c = CHR ''R''"
  "recorded c = CHR ''Y'' \<longleftrightarrow> c = CHR ''Y''"
  "recorded c = CHR ''G'' \<longleftrightarrow> c = CHR ''G''"
  by (auto simp: recorded_def)

lemma lamps_match_setLaneState:
  assumes "wired st" and "lamps_match st"
  shows "lamps_match (setLaneState l c st)"
proof (rule lamps_matchI)
  fix l'
  show "lamps l' (setLaneState l c st) =
     [currentLed (get_lane l' (setLaneState l c st)) = CHR ''R'',
      currentLed (get_lane l' (setLaneState l c st)) = CHR ''Y'',
      currentLed (get_lane l' (setLaneState l c st)) = CHR ''G'']"
  proof (cases "l' = l")
    case True
    with assms(1) show ?thesis by (simp add: lamps_setLaneState get_lane_setLaneState)
  next
    case False
    with assms show ?thesis
      by (simp add: lamps_other_setLaneState get_lane_setLaneState lamps_matchD)
  qed
qed

lemma active_outputs_le_1: "lamps_match st \<Longrightarrow> active_outputs l st \<le> 1"
  by (auto simp: active_outputs_def dest!: lamps_matchD [where l = l])

section \<open>Invariants of the sketch\<close>

lemma lane_pins_prims [simp]:
  "lane_pins l (digitalWrite p v st) = lane_pins l st"
  "lane_pins l (Serial_print s st) = lane_pins l st"
  "lane_pins l (Serial_println s st) = lane_pins l st"
  "lane_pins l (pinMode_OUTPUT p st) = lane_pins l st"
  "lane_pins l (st\<lparr>serialBuffer := m\<rparr>) = lane_pins l st"
  "lane_pins l (st\<lparr>serialBufferIndex := i\<rparr>) = lane_pins l st"
  by (simp_all add: lane_pins_def)

lemma lamps_prims [simp]:
  "lamps l (Serial_print s st) = lamps l st"
  "lamps l (Serial_println s st) = lamps l st"
  "lamps l (pinMode_OUTPUT p st) = lamps l st"
  "lamps l (st\<lparr>serialBuffer := m\<rparr>) = lamps l st"
  "lamps l (st\<lparr>serialBufferIndex := i\<rparr>) = lamps l st"
  by (simp_all add: lamps_def)

lemma wired_prims [simp]:
  "wired (Serial_print s st) = wired st"
  "wired (Serial_println s st) = wired st"
  "wired (pinMode_OUTPUT p st) = wired st"
  "wired (st\<lparr>serialBuffer := m\<rparr>) = wired st"
  "wired (st\<lparr>serialBufferIndex := i\<rparr>) = wired st"
  by (simp_all add: wired_def)

lemma lamps_match_prims [simp]:
  "lamps_match (Serial_print s st) = lamps_match st"
  "lamps_match (Serial_println s st) = lamps_match st"
  "lamps_match (pinMode_OUTPUT p st) = lamps_match st"
  "lamps_match (st\<lparr>serialBuffer := m\<rparr>) = lamps_match st"
  "lamps_match (st\<lparr>serialBufferIndex := i\<rparr>) = lamps_match st"
  by (simp_all add: lamps_match_def)

lemma lanes_ok_prims [simp]:
  "lanes_ok (Serial_print s st) = lanes_ok st"
  "lanes_ok (Serial_println s st) = lanes_ok st"
  "lanes_ok (pinMode_OUTPUT p st) = lanes_ok st"
  "lanes_ok (st\<lparr>serialBuffer := m\<rparr>) = lanes_ok st"
  "lanes_ok (st\<lparr>serialBufferIndex := i\<rparr>) = lanes_ok st"
  by (simp_all add: lanes_ok_def)

lemma lanes_ok_setLaneState: "lanes_ok st \<Longrightarrow> lanes_ok (setLaneState l c st)"
  by (simp add: lanes_ok_def lamps_match_setLaneState)

lemma lanes_ok_process_part: "lanes_ok st \<Longrightarrow> lanes_ok (process_part part st)"
  by (simp add: process_part_def Let_def lanes_ok_setLaneState)

lemma lanes_ok_command_loop: "lanes_ok st \<Longrightarrow> lanes_ok (command_loop part save st)"
proof (induction part save st rule: command_loop.induct)
  case (1 save st)
  then show ?case by simp
next
  case (2 part save st)
  then show ?case
    by (simp add: Let_def lanes_ok_process_part split: prod.split)
qed

lemma lanes_ok_processCommand: "lanes_ok st \<Longrightarrow> lanes_ok (processCommand st)"
  by (simp add: processCommand_def Let_def lanes_ok_command_loop split: prod.split)

lemma lanes_ok_loop: "lanes_ok st \<Longrightarrow> lanes_ok (loop avail st)"
  by (cases avail) (simp_all add: loop_def Let_def lanes_ok_processCommand)

lemma wired_boot: "wired (boot modes levels)"
  by (simp add: wired_def boot_def lane_pins_def get_lane.simps)

lemma wired_setup: "wired st \<Longrightarrow> wired (setup_sketch st)"
  by (simp add: setup_sketch_def Let_def)

text \<open>What \<^verbatim>\<open>setup\<close> leaves in each lane: the letter R, and the red lamp alone.\<close>

lemma get_lane_other_setLaneState: "l' \<noteq> l \<Longrightarrow> get_lane l' (setLaneState l c st) = get_lane l' st"
  by (simp add: get_lane_setLaneState)

lemma currentLed_setLaneState: "currentLed (get_lane l (setLaneState l c st)) = recorded c"
  by (simp add: get_lane_setLaneState)

lemma setup_red:
  assumes "wired st"
  shows "currentLed (get_lane l (setup_sketch st)) = CHR ''R'' \<and>
         lamps l (setup_sketch st) = [True, False, False]"
  using assms
  by (cases l)
    (simp_all add: setup_sketch_def Let_def lamps_setLaneState lamps_other_setLaneState
      get_lane_other_setLaneState currentLed_setLaneState recorded_def)

lemma lanes_ok_setup: "wired st \<Longrightarrow> lanes_ok (setup_sketch st)"
  by (simp add: lanes_ok_def wired_setup lamps_match_def setup_red)

lemma reachable_lanes_ok: "reachable st \<Longrightarrow> lanes_ok st"
  by (induction rule: reachable.induct) (simp_all add: lanes_ok_setup wired_boot lanes_ok_loop)

section \<open>The lamps of a lane\<close>

lemma active_outputs_setLaneState:
  "wired st \<Longrightarrow>
     active_outputs l (setLaneState l c st) =
       (if c = CHR ''R'' \<or> c = CHR ''Y'' \<or> c = CHR ''G'' then 1 else 0)"
  by (simp add: active_outputs_def lamps_setLaneState)

text \<open>
  C1. After a call of \<^verbatim>\<open>setLaneState\<close> on a lane, with any state character, the lamps of
  the lane are: red alone for R, yellow alone for Y, green alone for G, and none for any
  other character; so at most one output of the lane is active. The calls are made in
  wired states (the sketch never changes the pins a lane names). In every state the
  sketch reaches after \<^verbatim>\<open>setup\<close>, whatever bytes arrive, every lane has at most one
  active output.
\<close>

theorem setLaneState_at_most_one_active:
  "(wired st \<longrightarrow>
      lamps l (setLaneState l c st) = [c = CHR ''R'', c = CHR ''Y'', c = CHR ''G''] \<and>
      active_outputs l (setLaneState l c st) =
        (if c = CHR ''R'' \<or> c = CHR ''Y'' \<or> c = CHR ''G'' then 1 else 0) \<and>
      active_outputs l (setLaneState l c st) \<le> 1) \<and>
   (reachable st \<longrightarrow> wired st \<and> active_outputs l st \<le> 1)"
proof (intro conjI impI)
  assume w: "wired st"
  show "lamps l (setLaneState l c st) = [c = CHR ''R'', c = CHR ''Y'', c = CHR ''G'']"
    using w by (rule lamps_setLaneState)
  show "active_outputs l (setLaneState l c st) =
        (if c = CHR ''R'' \<or> c = CHR ''Y'' \<or> c = CHR ''G'' then 1 else 0)"
    using w by (rule active_outputs_setLaneState)
  then show "active_outputs l (setLaneState l c st) \<le> 1" by simp
next
  assume "reachable st"
  then have ok: "lanes_ok st" by (rule reachable_lanes_ok)
  then show "wired st" by (simp add: lanes_ok_def)
  from ok have "lamps_match st" by (simp add: lanes_ok_def)
  then show "active_outputs l st \<le> 1" by (rule active_outputs_le_1)
qed

theorem setLaneState_at_most_one_active_witness:
  "wired (setup_sketch (boot (\<lambda>p. False) (\<lambda>p. True))) \<and>
   lamps East (setLaneState East (CHR ''G'') (setup_sketch (boot (\<lambda>p. False) (\<lambda>p. True))))
     = [False, False, True] \<and>
   active_outputs East (setLaneState East (CHR ''G'') (setup_sketch (boot (\<lambda>p. False) (\<lambda>p. True))))
     = 1 \<and>
   reachable (setup_sketch (boot (\<lambda>p. False) (\<lambda>p. True))) \<and>
   active_outputs East (setup_sketch (boot (\<lambda>p. False) (\<lambda>p. True))) \<le> 1"
  using setLaneState_at_most_one_active
          [of "setup_sketch (boot (\<lambda>p. False) (\<lambda>p. True))" East "CHR ''G''"]
        reachable.after_setup [of "\<lambda>p. False" "\<lambda>p. True"]
  by simp

section \<open>Start-up\<close>

text \<open>
  C2. When \<^verbatim>\<open>setup\<close> has returned, and before any byte is read, each of the four lanes
  records the letter R, and its red output is active, its yellow and green outputs are
  not; this from any condition of the pins at power-up.
\<close>

theorem setup_all_lanes_red:
  "currentLed (get_lane l (setup_sketch (boot modes levels))) = CHR ''R'' \<and>
   lamps l (setup_sketch (boot modes levels)) = [True, False, False] \<and>
   pin_level (setup_sketch (boot modes levels)) (redPin (get_lane l (setup_sketch (boot modes levels))))"
proof -
  have "lamps l (setup_sketch (boot modes levels)) = [True, False, False]"
    by (simp add: setup_red wired_boot)
  moreover from this
  have "pin_level (setup_sketch (boot modes levels))
          (redPin (get_lane l (setup_sketch (boot modes levels))))"
    by (simp add: lamps_def lane_pins_def)
  ultimately show ?thesis by (simp add: setup_red wired_boot)
qed

section \<open>Lines and their segments\<close>

lemma split_commas_not_Nil [simp]: "split_commas s \<noteq> []"
  by (induction s) (auto split: list.split)

lemma split_commas_Cons:
  "c \<noteq> COMMA \<Longrightarrow> split_commas (c # cs) = (c # hd (split_commas cs)) # tl (split_commas cs)"
  by (cases "split_commas cs") simp_all

lemma hd_split_commas: "hd (split_commas s) = takeWhile (\<lambda>c. c \<noteq> COMMA) s"
  by (induction s) (simp_all add: split_commas_Cons del: split_commas.simps(2), simp)

lemma tl_split_commas:
  "filter (\<lambda>t. t \<noteq> []) (tl (split_commas s)) = segments (dropWhile (\<lambda>c. c \<noteq> COMMA) s)"
proof (induction s)
  case Nil
  show ?case by (simp add: segments_def)
next
  case (Cons c cs)
  show ?case
  proof (cases "c = COMMA")
    case True
    then show ?thesis by (simp add: segments_def)
  next
    case False
    with Cons show ?thesis by (simp add: split_commas_Cons del: split_commas.simps(2))
  qed
qed

lemma segments_Nil [simp]: "segments [] = []"
  by (simp add: segments_def)

lemma segments_comma [simp]: "segments (COMMA # s) = segments s"
  by (simp add: segments_def)

lemma segments_skip_commas: "segments (dropWhile (\<lambda>c. c = COMMA) s) = segments s"
  by (induction s) simp_all

lemma segments_token:
  assumes "s \<noteq> []" and "hd s \<noteq> COMMA"
  shows "segments s =
           takeWhile (\<lambda>c. c \<noteq> COMMA) s # segments (dropWhile (\<lambda>c. c \<noteq> COMMA) s)"
proof -
  from assms obtain c cs where s: "s = c # cs" and c: "c \<noteq> COMMA" by (cases s) auto
  have "segments s = filter (\<lambda>t. t \<noteq> []) ((c # hd (split_commas cs)) # tl (split_commas cs))"
    using c by (simp add: s segments_def split_commas_Cons del: split_commas.simps(2))
  also have "\<dots> = (c # takeWhile (\<lambda>c. c \<noteq> COMMA) cs) # segments (dropWhile (\<lambda>c. c \<noteq> COMMA) cs)"
    by (simp add: hd_split_commas tl_split_commas)
  finally show ?thesis using c by (simp add: s)
qed

lemma segments_after_token:
  "segments (tl (dropWhile (\<lambda>c. c \<noteq> COMMA) s)) = segments (dropWhile (\<lambda>c. c \<noteq> COMMA) s)"
proof (cases "dropWhile (\<lambda>c. c \<noteq> COMMA) s")
  case Nil
  then show ?thesis by (simp del: dropWhile_eq_Nil_conv)
next
  case (Cons c cs)
  then have "dropWhile (\<lambda>c. c \<noteq> COMMA) s \<noteq> []" by simp
  then have "\<not> (hd (dropWhile (\<lambda>c. c \<noteq> COMMA) s) \<noteq> COMMA)"
    by (rule hd_dropWhile)
  with Cons show ?thesis by simp
qed

text \<open>The segments of a line, as \<^verbatim>\<open>strtok\<close> finds them one after the other.\<close>

lemma segments_unfold:
  "segments s =
     (let s1 = dropWhile (\<lambda>c. c = COMMA) s
      in if s1 = [] then []
         else takeWhile (\<lambda>c. c \<noteq> COMMA) s1 # segments (tl (dropWhile (\<lambda>c. c \<noteq> COMMA) s1)))"
proof (cases "dropWhile (\<lambda>c. c = COMMA) s = []")
  case True
  then have "segments (dropWhile (\<lambda>c. c = COMMA) s) = []"
    by (simp del: dropWhile_eq_Nil_conv)
  then have "segments s = []" by (simp only: segments_skip_commas)
  with True show ?thesis by (simp del: dropWhile_eq_Nil_conv)
next
  case False
  then have "\<not> (hd (dropWhile (\<lambda>c. c = COMMA) s) = COMMA)" by (rule hd_dropWhile)
  with False have "segments (dropWhile (\<lambda>c. c = COMMA) s) =
      takeWhile (\<lambda>c. c \<noteq> COMMA) (dropWhile (\<lambda>c. c = COMMA) s) #
      segments (dropWhile (\<lambda>c. c \<noteq> COMMA) (dropWhile (\<lambda>c. c = COMMA) s))"
    by (intro segments_token) simp_all
  with False show ?thesis
    by (simp add: segments_skip_commas segments_after_token Let_def del: dropWhile_eq_Nil_conv)
qed

section \<open>strtok on a terminated buffer\<close>

lemma drop_length_takeWhile: "drop (length (takeWhile P xs)) (xs @ ys) = dropWhile P xs @ ys"
  by (simp add: dropWhile_eq_drop [symmetric] length_takeWhile_le)

lemma c_str_at:
  assumes "drop p mem = str @ NUL # rest" and "NUL \<notin> set str"
  shows "c_str mem p = str"
  using assms by (auto simp: c_str_def takeWhile_tail)

lemma nth_of_drop:
  assumes "drop p mem = x # xs"
  shows "p < length mem" and "mem ! p = x"
proof -
  show p: "p < length mem" using assms by (cases "p < length mem") simp_all
  then have "hd (drop p mem) = mem ! p" by (rule hd_drop_conv_nth)
  with assms show "mem ! p = x" by simp
qed

text \<open>
  When the buffer holds at offset \<open>s\<close> the string \<open>str\<close> and its terminator, \<^verbatim>\<open>strtok\<close>
  returns \<^verbatim>\<open>NULL\<close> if \<open>str\<close> has no segment; otherwise it returns the first segment of
  \<open>str\<close>, as a terminated string, and saves a pointer to a terminated string, shorter
  than \<open>str\<close>, that holds the other segments.
\<close>

lemma strtok_spec:
  assumes d: "drop s mem = str @ NUL # rest" and nul: "NUL \<notin> set str"
  shows "\<exists>part mem' save. strtok mem s = (part, mem', save) \<and> length mem' = length mem \<and>
           (case part of
              None \<Rightarrow> segments str = []
            | Some tok \<Rightarrow>
                (\<exists>str' rest'. drop save mem' = str' @ NUL # rest' \<and> NUL \<notin> set str' \<and>
                   length str' < length str \<and>
                   segments str = c_str mem' tok # segments str'))"
proof -
  define str1 where "str1 = dropWhile (\<lambda>c. c = COMMA) str"
  define tok where "tok = s + length (takeWhile (\<lambda>c. c = COMMA) str)"
  have spn: "strspn_comma mem s = length (takeWhile (\<lambda>c. c = COMMA) str)"
    by (simp add: strspn_comma_def d takeWhile_tail)
  have d1: "drop tok mem = str1 @ NUL # rest"
  proof -
    have "drop tok mem = drop (length (takeWhile (\<lambda>c. c = COMMA) str)) (drop s mem)"
      by (simp add: tok_def add.commute)
    then show ?thesis by (simp only: d drop_length_takeWhile str1_def)
  qed
  have nul1: "NUL \<notin> set str1" using nul by (auto simp: str1_def dest: set_dropWhileD)
  show ?thesis
  proof (cases "str1 = []")
    case True
    with d1 have "tok < length mem" "mem ! tok = NUL" by (simp_all add: nth_of_drop)
    then have "strtok mem s = (None, mem, tok)" by (simp add: strtok_def Let_def spn tok_def)
    moreover from True have "segments str = []"
      by (subst segments_unfold) (simp add: str1_def del: dropWhile_eq_Nil_conv)
    ultimately show ?thesis by simp
  next
    case False
    then obtain c cs where str1: "str1 = c # cs" by (cases str1) auto
    with nul1 have c: "c \<noteq> NUL" by auto
    from d1 str1 have tk: "tok < length mem" "mem ! tok = c" by (simp_all add: nth_of_drop)
    define t where "t = takeWhile (\<lambda>c. c \<noteq> COMMA) str1"
    define str2 where "str2 = dropWhile (\<lambda>c. c \<noteq> COMMA) str1"
    define e where "e = tok + length t"
    have "takeWhile (\<lambda>c. c \<noteq> COMMA \<and> c \<noteq> NUL) str1 = takeWhile (\<lambda>c. c \<noteq> COMMA) str1"
      using nul1 by (intro takeWhile_cong) auto
    then have cspn: "strcspn_comma mem tok = length t"
      by (simp add: strcspn_comma_def d1 takeWhile_tail t_def)
    have d2: "drop e mem = str2 @ NUL # rest"
    proof -
      have "drop e mem = drop (length t) (drop tok mem)" by (simp add: e_def add.commute)
      then show ?thesis by (simp only: d1 t_def drop_length_takeWhile str2_def)
    qed
    have nul_t: "NUL \<notin> set t" using nul1 by (auto simp: t_def dest: set_takeWhileD)
    have nul2: "NUL \<notin> set str2" using nul1 by (auto simp: str2_def dest: set_dropWhileD)
    have split: "str1 = t @ str2" by (simp add: t_def str2_def)
    have len1: "length str1 \<le> length str" by (simp add: str1_def length_dropWhile_le)
    have seg: "segments str = t # segments (tl str2)"
      using False by (subst segments_unfold) (simp add: str1_def [symmetric] t_def str2_def Let_def)
    show ?thesis
    proof (cases "str2 = []")
      case True
      with d2 have "e < length mem" "mem ! e = NUL" by (simp_all add: nth_of_drop)
      with tk c have "strtok mem s = (Some tok, mem, e)"
        by (simp add: strtok_def Let_def spn tok_def [symmetric] cspn e_def [symmetric])
      moreover have "c_str mem tok = t"
        using d1 nul1 True split by (simp add: c_str_at)
      moreover have "drop e mem = [] @ NUL # rest" using d2 True by simp
      moreover have "length ([]::string) < length str" using len1 str1 by auto
      moreover have "segments str = t # segments []" using seg True by simp
      ultimately show ?thesis by (auto simp del: append_Nil)
    next
      case False
      then obtain c2 cs2 where str2: "str2 = c2 # cs2" by (cases str2) auto
      with nul2 have c2: "c2 \<noteq> NUL" by auto
      from d2 str2 have ek: "e < length mem" "mem ! e = c2" by (simp_all add: nth_of_drop)
      with tk c c2 have tokr: "strtok mem s = (Some tok, mem[e := NUL], e + 1)"
        by (simp add: strtok_def Let_def spn tok_def [symmetric] cspn e_def [symmetric])
      have "drop tok (mem[e := NUL]) = (drop tok mem)[length t := NUL]"
        by (simp add: drop_update_swap e_def)
      also have "\<dots> = t @ NUL # cs2 @ NUL # rest"
        by (simp add: d1 split str2 list_update_append)
      finally have "c_str (mem[e := NUL]) tok = t"
        using nul_t by (simp add: c_str_at)
      moreover have "drop (e + 1) (mem[e := NUL]) = cs2 @ NUL # rest"
      proof -
        have "drop (e + 1) (mem[e := NUL]) = drop 1 (drop e mem)" by (simp add: add.commute)
        then show ?thesis by (simp add: d2 str2)
      qed
      moreover have "NUL \<notin> set cs2" using nul2 str2 by simp
      moreover have "length cs2 < length str" using len1 split str2 by simp
      moreover have "segments str = t # segments cs2" using seg str2 by simp
      ultimately show ?thesis using tokr by auto
    qed
  qed
qed

section \<open>What a line does\<close>

lemma process_part_buffer_update:
  "process_part part (st\<lparr>serialBuffer := m\<rparr>) = (process_part part st)\<lparr>serialBuffer := m\<rparr>"
  by (simp add: process_part_def Let_def setLaneState_buffer_update)

lemma fold_process_part_buffer_update:
  "fold process_part ts (st\<lparr>serialBuffer := m\<rparr>) = (fold process_part ts st)\<lparr>serialBuffer := m\<rparr>"
  by (induction ts arbitrary: st) (simp_all add: process_part_buffer_update)

lemma ignoring_buffer_update [simp]:
  "ignoring_buffer (st\<lparr>serialBuffer := m\<rparr>) = ignoring_buffer st"
  by (simp add: ignoring_buffer_def)

lemma ignoring_buffer_fold:
  "ignoring_buffer (fold process_part ts st) = fold process_part ts (ignoring_buffer st)"
  by (simp add: ignoring_buffer_def fold_process_part_buffer_update)

lemma command_loop_length [simp]:
  "length (serialBuffer (command_loop part save st)) = length (serialBuffer st)"
proof (induction part save st rule: command_loop.induct)
  case (1 save st)
  show ?case by simp
next
  case (2 part save st)
  let ?st1 = "process_part (c_str (serialBuffer st) part) st"
  obtain part' mem' save' where
    fields: "strtok (serialBuffer ?st1) save = (part', mem', save')"
    using prod_cases3 by blast
  have "length (serialBuffer (command_loop part' save' (?st1\<lparr>serialBuffer := mem'\<rparr>))) =
        length mem'"
    using "2.IH" [OF refl fields [symmetric] refl] by simp
  moreover have "length mem' = length (serialBuffer st)"
    using strtok_length [OF fields] by simp
  moreover have "command_loop (Some part) save st =
                 command_loop part' save' (?st1\<lparr>serialBuffer := mem'\<rparr>)"
    using fields by (simp add: Let_def)
  ultimately show ?case by simp
qed

lemma command_loop_fold:
  assumes "drop save (serialBuffer st) = str @ NUL # rest" and "NUL \<notin> set str"
  shows "ignoring_buffer (command_loop (Some tok) save st) =
         ignoring_buffer (fold process_part (c_str (serialBuffer st) tok # segments str) st)"
  using assms
proof (induction "length str" arbitrary: str rest save st tok rule: less_induct)
  case less
  let ?st1 = "process_part (c_str (serialBuffer st) tok) st"
  from strtok_spec [OF less.prems]
  obtain part mem' save' where
    tk: "strtok (serialBuffer st) save = (part, mem', save')" and
    rest: "case part of
             None \<Rightarrow> segments str = []
           | Some tok' \<Rightarrow>
               (\<exists>str' rest'. drop save' mem' = str' @ NUL # rest' \<and> NUL \<notin> set str' \<and>
                  length str' < length str \<and> segments str = c_str mem' tok' # segments str')"
    by blast
  have step: "command_loop (Some tok) save st = command_loop part save' (?st1\<lparr>serialBuffer := mem'\<rparr>)"
    by (simp add: Let_def tk)
  show ?case
  proof (cases part)
    case None
    with rest have "segments str = []" by simp
    with None show ?thesis unfolding step by simp
  next
    case (Some tok')
    with rest obtain str' rest' where
      d': "drop save' mem' = str' @ NUL # rest'" and nul': "NUL \<notin> set str'" and
      shorter: "length str' < length str" and
      seg: "segments str = c_str mem' tok' # segments str'"
      by auto
    have "ignoring_buffer (command_loop (Some tok') save' (?st1\<lparr>serialBuffer := mem'\<rparr>)) =
          ignoring_buffer (fold process_part (c_str mem' tok' # segments str')
                             (?st1\<lparr>serialBuffer := mem'\<rparr>))"
      using less.hyps [OF shorter, of save' "?st1\<lparr>serialBuffer := mem'\<rparr>" rest' tok'] d' nul'
      by simp
    also have "\<dots> = ignoring_buffer (fold process_part (segments str) ?st1)"
      by (simp only: seg fold_process_part_buffer_update ignoring_buffer_update)
    finally show ?thesis unfolding step Some by (simp del: command_loop.simps)
  qed
qed

text \<open>
  \<^verbatim>\<open>processCommand\<close> on a buffer that holds the command \<open>cmd\<close> and its terminator does
  what \<open>run_line cmd\<close> does, to everything but the contents of the buffer.
\<close>

lemma processCommand_run_line:
  assumes "serialBuffer st = cmd @ NUL # rest" and "NUL \<notin> set cmd"
  shows "ignoring_buffer (processCommand st) = ignoring_buffer (run_line cmd st)"
proof -
  let ?st2 = "Serial_println cmd (Serial_print ''Received command: '' st)"
  have d0: "drop 0 (serialBuffer st) = cmd @ NUL # rest" using assms by simp
  then have echo: "c_str (serialBuffer st) 0 = cmd" using assms(2) by (rule c_str_at)
  from strtok_spec [OF d0 assms(2)]
  obtain part mem' save' where
    tk: "strtok (serialBuffer st) 0 = (part, mem', save')" and
    rest: "case part of
             None \<Rightarrow> segments cmd = []
           | Some tok' \<Rightarrow>
               (\<exists>str' rest'. drop save' mem' = str' @ NUL # rest' \<and> NUL \<notin> set str' \<and>
                  length str' < length cmd \<and> segments cmd = c_str mem' tok' # segments str')"
    by blast
  have step: "processCommand st = command_loop part save' (?st2\<lparr>serialBuffer := mem'\<rparr>)"
    by (simp add: processCommand_def Let_def tk echo)
  show ?thesis
  proof (cases part)
    case None
    with rest show ?thesis unfolding step by (simp add: run_line_def)
  next
    case (Some tok')
    with rest obtain str' rest' where
      d': "drop save' mem' = str' @ NUL # rest'" and nul': "NUL \<notin> set str'" and
      seg: "segments cmd = c_str mem' tok' # segments str'"
      by auto
    have "ignoring_buffer (command_loop (Some tok') save' (?st2\<lparr>serialBuffer := mem'\<rparr>)) =
          ignoring_buffer (fold process_part (c_str mem' tok' # segments str')
                             (?st2\<lparr>serialBuffer := mem'\<rparr>))"
      using command_loop_fold [of save' "?st2\<lparr>serialBuffer := mem'\<rparr>" str' rest' tok'] d' nul'
      by simp
    also have "\<dots> = ignoring_buffer (fold process_part (segments cmd) ?st2)"
      by (simp only: seg fold_process_part_buffer_update ignoring_buffer_update)
    finally show ?thesis unfolding step Some by (simp add: run_line_def del: command_loop.simps)
  qed
qed

lemma processCommand_length [simp]:
  "length (serialBuffer (processCommand st)) = length (serialBuffer st)"
  by (simp add: processCommand_def Let_def strtok_length split: prod.split)

section \<open>The line accumulator\<close>

lemma index_update_commute [simp]:
  "put_lane l v (st\<lparr>serialBufferIndex := i\<rparr>) = (put_lane l v st)\<lparr>serialBufferIndex := i\<rparr>"
  "digitalWrite p b (st\<lparr>serialBufferIndex := i\<rparr>) = (digitalWrite p b st)\<lparr>serialBufferIndex := i\<rparr>"
  "Serial_print s (st\<lparr>serialBufferIndex := i\<rparr>) = (Serial_print s st)\<lparr>serialBufferIndex := i\<rparr>"
  "Serial_println s (st\<lparr>serialBufferIndex := i\<rparr>) = (Serial_println s st)\<lparr>serialBufferIndex := i\<rparr>"
  by (cases l; simp add: digitalWrite_def Serial_print_def Serial_println_def put_lane.simps)+

lemma setLaneState_index_update:
  "setLaneState l c (st\<lparr>serialBufferIndex := i\<rparr>) = (setLaneState l c st)\<lparr>serialBufferIndex := i\<rparr>"
  by (simp add: setLaneState_def Let_def)

lemma process_part_index_update:
  "process_part part (st\<lparr>serialBufferIndex := i\<rparr>) = (process_part part st)\<lparr>serialBufferIndex := i\<rparr>"
  by (simp add: process_part_def Let_def setLaneState_index_update)

lemma fold_process_part_index_update:
  "fold process_part ts (st\<lparr>serialBufferIndex := i\<rparr>) =
     (fold process_part ts st)\<lparr>serialBufferIndex := i\<rparr>"
  by (induction ts arbitrary: st) (simp_all add: process_part_index_update)

lemma run_line_updates:
  "run_line cmd (st\<lparr>serialBufferIndex := i\<rparr>) = (run_line cmd st)\<lparr>serialBufferIndex := i\<rparr>"
  "run_line cmd (st\<lparr>serialBuffer := m\<rparr>) = (run_line cmd st)\<lparr>serialBuffer := m\<rparr>"
  by (simp_all add: run_line_def fold_process_part_index_update fold_process_part_buffer_update)

lemma serialBufferIndex_process_part [simp]:
  "serialBufferIndex (process_part part st) = serialBufferIndex st"
  by (simp add: process_part_def Let_def)

lemma serialBufferIndex_run_line [simp]:
  "serialBufferIndex (run_line cmd st) = serialBufferIndex st"
proof -
  have "serialBufferIndex (fold process_part ts s) = serialBufferIndex s" for ts s
    by (induction ts arbitrary: s) simp_all
  then show ?thesis by (simp add: run_line_def)
qed

text \<open>Bytes other than the newline, while they fit, are stored one after the other.\<close>

lemma feed_accumulate:
  assumes "NEWLINE \<notin> set bs"
    and "serialBufferIndex st + length bs < SERIAL_BUFFER_SIZE"
    and "length (serialBuffer st) = SERIAL_BUFFER_SIZE"
  shows "feed bs st =
           st\<lparr>serialBuffer := take (serialBufferIndex st) (serialBuffer st) @ bs @
                               drop (serialBufferIndex st + length bs) (serialBuffer st),
              serialBufferIndex := serialBufferIndex st + length bs\<rparr>"
  using assms
proof (induction bs arbitrary: st)
  case Nil
  then show ?case by (simp add: feed_def)
next
  case (Cons b bs)
  let ?i = "serialBufferIndex st"
  let ?st' = "st\<lparr>serialBuffer := (serialBuffer st)[?i := b], serialBufferIndex := ?i + 1\<rparr>"
  from Cons.prems have b: "b \<noteq> NEWLINE" and i: "?i < SERIAL_BUFFER_SIZE - 1" by auto
  then have one: "loop (Some b) st = ?st'" by (simp add: loop_def)
  have "feed (b # bs) st = feed bs ?st'" by (simp add: feed_def one)
  also have "\<dots> = ?st'\<lparr>serialBuffer := take (?i + 1) ((serialBuffer st)[?i := b]) @ bs @
                               drop (?i + 1 + length bs) ((serialBuffer st)[?i := b]),
                        serialBufferIndex := ?i + 1 + length bs\<rparr>"
    using Cons.IH [of ?st'] Cons.prems by simp
  also have "take (?i + 1) ((serialBuffer st)[?i := b]) = take ?i (serialBuffer st) @ [b]"
    using Cons.prems by (simp add: take_Suc_conv_app_nth)
  finally show ?case by simp
qed

text \<open>
  A line: at most 63 bytes other than the newline, arriving when the accumulator is ready,
  and then the newline. The command is the line up to its first NUL byte, if it has one.
  The sketch does to everything but the contents of the buffer what \<open>run_line\<close> does, and
  the accumulator is ready again.
\<close>

lemma to_first_NUL: "\<exists>rest'. line @ NUL # rest = takeWhile (\<lambda>c. c \<noteq> NUL) line @ NUL # rest'"
proof (cases "dropWhile (\<lambda>c. c \<noteq> NUL) line")
  case Nil
  then have "takeWhile (\<lambda>c. c \<noteq> NUL) line = line" by simp
  then show ?thesis by metis
next
  case (Cons c cs)
  then have "dropWhile (\<lambda>c. c \<noteq> NUL) line \<noteq> []" by simp
  then have "\<not> (hd (dropWhile (\<lambda>c. c \<noteq> NUL) line) \<noteq> NUL)" by (rule hd_dropWhile)
  with Cons have "dropWhile (\<lambda>c. c \<noteq> NUL) line = NUL # cs" by simp
  then have "line = takeWhile (\<lambda>c. c \<noteq> NUL) line @ NUL # cs"
    by (metis takeWhile_dropWhile_id)
  then have "line @ NUL # rest = takeWhile (\<lambda>c. c \<noteq> NUL) line @ NUL # (cs @ NUL # rest)"
    by (metis append.assoc append_Cons)
  then show ?thesis ..
qed

lemma ignoring_buffer_index_update:
  "ignoring_buffer (st\<lparr>serialBufferIndex := i\<rparr>) = (ignoring_buffer st)\<lparr>serialBufferIndex := i\<rparr>"
  by (simp add: ignoring_buffer_def)

lemma loop_newline:
  "loop (Some NEWLINE) st =
     (processCommand (st\<lparr>serialBuffer := (serialBuffer st)[serialBufferIndex st := NUL]\<rparr>))
       \<lparr>serialBufferIndex := 0\<rparr>"
  by (simp add: loop_def Let_def)

lemma feed_line:
  assumes "ready st" and "NEWLINE \<notin> set line" and "length line < SERIAL_BUFFER_SIZE"
  shows "ignoring_buffer (feed (line @ [NEWLINE]) st) =
           ignoring_buffer (run_line (takeWhile (\<lambda>c. c \<noteq> NUL) line) st)"
    and "ready (feed (line @ [NEWLINE]) st)"
proof -
  let ?buf = "serialBuffer st"
  let ?cmd = "takeWhile (\<lambda>c. c \<noteq> NUL) line"
  from assms(1) have len: "length ?buf = SERIAL_BUFFER_SIZE" and i0: "serialBufferIndex st = 0"
    by (simp_all add: ready_def)
  define st1 where "st1 = st\<lparr>serialBuffer := line @ drop (length line) ?buf,
                              serialBufferIndex := length line\<rparr>"
  have acc: "feed line st = st1"
    using feed_accumulate [of line st] assms(2,3) len i0 by (simp add: st1_def)
  obtain x xs where dr: "drop (length line) ?buf = x # xs"
    using assms(3) len by (cases "drop (length line) ?buf") simp_all
  define st2 where "st2 = st1\<lparr>serialBuffer := line @ NUL # xs\<rparr>"
  have stored: "(serialBuffer st1)[serialBufferIndex st1 := NUL] = line @ NUL # xs"
    by (simp add: st1_def dr list_update_append)
  have all: "feed (line @ [NEWLINE]) st = (processCommand st2)\<lparr>serialBufferIndex := 0\<rparr>"
    by (simp add: feed_def acc [unfolded feed_def] loop_newline stored st2_def)
  obtain rest' where "line @ NUL # xs = ?cmd @ NUL # rest'"
    using to_first_NUL by blast
  then have held: "serialBuffer st2 = ?cmd @ NUL # rest'" by (simp add: st2_def)
  have "NUL \<notin> set ?cmd" by (auto dest: set_takeWhileD)
  with held have "ignoring_buffer (processCommand st2) = ignoring_buffer (run_line ?cmd st2)"
    by (rule processCommand_run_line)
  then have "ignoring_buffer ((processCommand st2)\<lparr>serialBufferIndex := 0\<rparr>) =
             ignoring_buffer ((run_line ?cmd st2)\<lparr>serialBufferIndex := 0\<rparr>)"
    by (simp only: ignoring_buffer_index_update)
  also have "(run_line ?cmd st2)\<lparr>serialBufferIndex := 0\<rparr> =
             (run_line ?cmd st)\<lparr>serialBuffer := line @ NUL # xs\<rparr>"
    using i0 by (simp add: st2_def st1_def run_line_updates)
  finally show "ignoring_buffer (feed (line @ [NEWLINE]) st) = ignoring_buffer (run_line ?cmd st)"
    by (simp add: all)
  have "length ?buf - length line = Suc (length xs)"
    using dr by (metis length_drop length_Cons)
  then have "length (serialBuffer st2) = SERIAL_BUFFER_SIZE"
    using len assms(3) by (simp add: st2_def st1_def)
  then show "ready (feed (line @ [NEWLINE]) st)" by (simp add: all ready_def)
qed

lemma ignoring_buffer_fields:
  assumes "ignoring_buffer a = ignoring_buffer b"
  shows "get_lane l a = get_lane l b" and "pin_level a = pin_level b"
    and "pin_log a = pin_log b" and "serial_out a = serial_out b"
    and "serialBufferIndex a = serialBufferIndex b" and "pin_mode a = pin_mode b"
    and "lamps l a = lamps l b" and "lane_pins l a = lane_pins l b"
    and "ignoring_buffer a = ignoring_buffer b"
proof -
  have "get_lane l (ignoring_buffer a) = get_lane l (ignoring_buffer b)" using assms by simp
  then show lane: "get_lane l a = get_lane l b" by (simp add: ignoring_buffer_def)
  have "pin_level (ignoring_buffer a) = pin_level (ignoring_buffer b)" using assms by simp
  then show lv: "pin_level a = pin_level b" by (simp add: ignoring_buffer_def)
  have "pin_log (ignoring_buffer a) = pin_log (ignoring_buffer b)" using assms by simp
  then show "pin_log a = pin_log b" by (simp add: ignoring_buffer_def)
  have "serial_out (ignoring_buffer a) = serial_out (ignoring_buffer b)" using assms by simp
  then show "serial_out a = serial_out b" by (simp add: ignoring_buffer_def)
  have "serialBufferIndex (ignoring_buffer a) = serialBufferIndex (ignoring_buffer b)"
    using assms by simp
  then show "serialBufferIndex a = serialBufferIndex b" by (simp add: ignoring_buffer_def)
  have "pin_mode (ignoring_buffer a) = pin_mode (ignoring_buffer b)" using assms by simp
  then show "pin_mode a = pin_mode b" by (simp add: ignoring_buffer_def)
  show "lamps l a = lamps l b" by (simp add: lamps_def lane_pins_def lane lv)
  show "lane_pins l a = lane_pins l b" by (simp add: lane_pins_def lane)
  show "ignoring_buffer a = ignoring_buffer b" by (fact assms)
qed

section \<open>Segments as directives\<close>

lemma process_part_directive: "process_part (directive l c) st = setLaneState l c st"
  by (cases l) (simp_all add: process_part_def directive_def)

lemma process_part_malformed:
  "length part \<noteq> 3 \<or> part ! 1 \<noteq> COLON \<Longrightarrow>
     process_part part st = Serial_println part (Serial_print ''Malformed command part: '' st)"
  by (auto simp: process_part_def)

lemma process_part_unknown_lane:
  "length part = 3 \<Longrightarrow> part ! 1 = COLON \<Longrightarrow> part ! 0 \<notin> set ''NESW'' \<Longrightarrow>
     process_part part st = Serial_println [part ! 0] (Serial_print ''Unknown lane code: '' st)"
  by (simp add: process_part_def)

lemma split_commas_append:
  "split_commas (a @ COMMA # b) = split_commas a @ split_commas b"
proof (induction a)
  case Nil
  show ?case by simp
next
  case (Cons c a)
  show ?case
  proof (cases "c = COMMA")
    case True
    with Cons show ?thesis by simp
  next
    case False
    then show ?thesis
      by (simp add: split_commas_Cons Cons del: split_commas.simps(2))
  qed
qed

lemma segments_append: "segments (a @ COMMA # b) = segments a @ segments b"
  by (simp add: segments_def split_commas_append)

lemma lane_code_not_comma [simp]: "lane_code l \<noteq> COMMA"
  by (cases l) simp_all

lemma segments_directive: "c \<noteq> COMMA \<Longrightarrow> segments (directive l c) = [directive l c]"
  by (simp add: segments_def directive_def)

lemma segments_wire_line:
  "\<forall>(l, c) \<in> set ds. c \<noteq> COMMA \<Longrightarrow> segments (wire_line ds) = map (\<lambda>(l, c). directive l c) ds"
proof (induction ds rule: wire_line.induct)
  case 1
  show ?case by simp
next
  case (2 l c)
  then show ?case by (simp add: segments_directive)
next
  case (3 l c d ds)
  then show ?case by (simp add: segments_append segments_directive)
qed

lemma fold_process_part_directives:
  "fold process_part (map (\<lambda>(l, c). directive l c) ds) st = apply_directives ds st"
  unfolding apply_directives_def
  by (induction ds arbitrary: st) (auto simp: process_part_directive)

lemma lane_code_plain [simp]: "lane_code l \<noteq> NEWLINE" "lane_code l \<noteq> NUL"
  by (cases l; simp)+

lemma wire_line_plain:
  assumes "\<forall>(l, c) \<in> set ds. c \<noteq> x" and "x \<noteq> COMMA" and "x \<noteq> COLON" and "\<And>l. lane_code l \<noteq> x"
  shows "x \<notin> set (wire_line ds)"
  using assms by (induction ds rule: wire_line.induct) (auto simp: directive_def)

text \<open>
  A line of the wire grammar, whatever its state characters (other than the comma, NUL and
  the newline, which cannot stand in a segment), arriving when the accumulator is ready:
  after the echo, its directives are applied in the order of the line.
\<close>

lemma feed_wire_line:
  assumes "ready st" and "\<forall>(l, c) \<in> set ds. c \<noteq> COMMA \<and> c \<noteq> NUL \<and> c \<noteq> NEWLINE"
    and "length (wire_line ds) < SERIAL_BUFFER_SIZE"
  shows "ignoring_buffer (feed (wire_line ds @ [NEWLINE]) st) =
         ignoring_buffer (apply_directives ds
           (Serial_println (wire_line ds) (Serial_print ''Received command: '' st)))"
    and "ready (feed (wire_line ds @ [NEWLINE]) st)"
proof -
  have "\<forall>(l, c) \<in> set ds. c \<noteq> NEWLINE" "\<forall>(l, c) \<in> set ds. c \<noteq> NUL"
    using assms(2) by auto
  then have plain: "NEWLINE \<notin> set (wire_line ds)" "NUL \<notin> set (wire_line ds)"
    by (simp_all add: wire_line_plain)
  then have cmd: "takeWhile (\<lambda>c. c \<noteq> NUL) (wire_line ds) = wire_line ds" by auto
  have seg: "segments (wire_line ds) = map (\<lambda>(l, c). directive l c) ds"
    using assms(2) by (intro segments_wire_line) auto
  show "ignoring_buffer (feed (wire_line ds @ [NEWLINE]) st) =
         ignoring_buffer (apply_directives ds
           (Serial_println (wire_line ds) (Serial_print ''Received command: '' st)))"
    using feed_line(1) [OF assms(1) plain(1) assms(3)]
    by (simp add: cmd run_line_def seg fold_process_part_directives)
  show "ready (feed (wire_line ds @ [NEWLINE]) st)"
    using assms(1) plain(1) assms(3) by (rule feed_line(2))
qed

lemma apply_directives_simps [simp]:
  "apply_directives [] st = st"
  "apply_directives ((l, c) # ds) st = apply_directives ds (setLaneState l c st)"
  by (simp_all add: apply_directives_def)

lemma wired_apply_directives [simp]: "wired (apply_directives ds st) = wired st"
proof (induction ds arbitrary: st)
  case Nil
  show ?case by simp
next
  case (Cons d ds)
  obtain l c where "d = (l, c)" by (cases d)
  with Cons show ?case by simp
qed

lemma apply_directives_append:
  "apply_directives (pre @ (l, c) # post) st =
     apply_directives post (setLaneState l c (apply_directives pre st))"
  by (simp add: apply_directives_def)


lemma ready_setup: "ready (setup_sketch (boot modes levels))"
  by (simp add: ready_def setup_sketch_def Let_def boot_def)

section \<open>Valid lines\<close>

text \<open>
  C5. Take a line of the wire grammar, with any state characters (other than the comma,
  NUL and the newline, which cannot stand in a segment), arriving when the accumulator is
  ready, and any of its segments, for lane \<open>l\<close> and a state \<open>c\<close> that is R, Y or G.
  The sketch applies the segments before it, then this one by the call
  \<open>setLaneState l c\<close>, then the segments after it. The call leaves lane \<open>l\<close> with exactly
  one active output, the one for \<open>c\<close>, and with the letter \<open>c\<close> recorded; every other lane
  keeps its record and the levels of its three outputs.
\<close>

theorem valid_segment_sets_only_its_lane:
  assumes "ready st" and "wired st"
    and "ds = pre @ (l, c) # post"
    and "\<forall>(l', c') \<in> set ds. c' \<noteq> COMMA \<and> c' \<noteq> NUL \<and> c' \<noteq> NEWLINE"
    and "c \<in> {CHR ''R'', CHR ''Y'', CHR ''G''}"
    and "length (wire_line ds) < SERIAL_BUFFER_SIZE"
  shows "let before = apply_directives pre
                        (Serial_println (wire_line ds) (Serial_print ''Received command: '' st));
             after = setLaneState l c before
         in process_part (directive l c) before = after \<and>
            ignoring_buffer (feed (wire_line ds @ [NEWLINE]) st) =
              ignoring_buffer (apply_directives post after) \<and>
            lamps l after = [c = CHR ''R'', c = CHR ''Y'', c = CHR ''G''] \<and>
            active_outputs l after = 1 \<and>
            currentLed (get_lane l after) = c \<and>
            (\<forall>l'. l' \<noteq> l \<longrightarrow>
               get_lane l' after = get_lane l' before \<and> lamps l' after = lamps l' before)"
proof -
  define before where "before = apply_directives pre
                        (Serial_println (wire_line ds) (Serial_print ''Received command: '' st))"
  define after where "after = setLaneState l c before"
  have w: "wired before" using assms(2) by (simp add: before_def)
  have c: "c = CHR ''R'' \<or> c = CHR ''Y'' \<or> c = CHR ''G''" using assms(5) by simp
  have "ignoring_buffer (feed (wire_line ds @ [NEWLINE]) st) =
        ignoring_buffer (apply_directives ds
           (Serial_println (wire_line ds) (Serial_print ''Received command: '' st)))"
    using assms(1) assms(4) assms(6) by (rule feed_wire_line(1))
  then have run: "ignoring_buffer (feed (wire_line ds @ [NEWLINE]) st) =
                  ignoring_buffer (apply_directives post after)"
    by (simp add: assms(3) apply_directives_append before_def after_def)
  have 1: "process_part (directive l c) before = after"
    by (simp add: process_part_directive after_def)
  have 2: "lamps l after = [c = CHR ''R'', c = CHR ''Y'', c = CHR ''G'']"
    using w by (simp add: after_def lamps_setLaneState)
  have 3: "active_outputs l after = 1"
    using w c by (simp add: after_def active_outputs_setLaneState)
  have 4: "currentLed (get_lane l after) = c"
    using c by (auto simp: after_def currentLed_setLaneState recorded_def)
  have 5: "\<forall>l'. l' \<noteq> l \<longrightarrow>
             get_lane l' after = get_lane l' before \<and> lamps l' after = lamps l' before"
    using w by (simp add: after_def get_lane_other_setLaneState lamps_other_setLaneState)
  from 1 run 2 3 4 5 show ?thesis
    unfolding before_def [symmetric] after_def [symmetric] Let_def by blast
qed

theorem valid_segment_sets_only_its_lane_witness:
  "let st = setup_sketch (boot (\<lambda>p. False) (\<lambda>p. False));
       ds = [(North, CHR ''Z''), (East, CHR ''Y''), (South, CHR ''R'')];
       before = apply_directives [(North, CHR ''Z'')]
                  (Serial_println ''N:Z,E:Y,S:R'' (Serial_print ''Received command: '' st));
       after = setLaneState East (CHR ''Y'') before
   in ready st \<and> wired st \<and> wire_line ds = ''N:Z,E:Y,S:R'' \<and>
      ds = [(North, CHR ''Z'')] @ (East, CHR ''Y'') # [(South, CHR ''R'')] \<and>
      list_all (\<lambda>(l', c'). c' \<noteq> COMMA \<and> c' \<noteq> NUL \<and> c' \<noteq> NEWLINE) ds \<and>
      CHR ''Y'' \<in> {CHR ''R'', CHR ''Y'', CHR ''G''} \<and>
      length (wire_line ds) < SERIAL_BUFFER_SIZE \<and>
      process_part ''E:Y'' before = after \<and>
      ignoring_buffer (feed (''N:Z,E:Y,S:R'' @ [NEWLINE]) st) =
        ignoring_buffer (apply_directives [(South, CHR ''R'')] after) \<and>
      lamps East after = [False, True, False] \<and>
      active_outputs East after = 1 \<and>
      currentLed (get_lane East after) = CHR ''Y'' \<and>
      get_lane North after = get_lane North before \<and> lamps North after = lamps North before"
proof -
  let ?st = "setup_sketch (boot (\<lambda>p. False) (\<lambda>p. False))"
  have r: "ready ?st" by (rule ready_setup)
  have w: "wired ?st" by (simp add: wired_setup wired_boot)
  show ?thesis
    using valid_segment_sets_only_its_lane
            [OF r w, of "[(North, CHR ''Z''), (East, CHR ''Y''), (South, CHR ''R'')]"
               "[(North, CHR ''Z'')]" East "CHR ''Y''" "[(South, CHR ''R'')]"] r w
    by (simp add: directive_def SERIAL_BUFFER_SIZE_def Let_def)
qed





section \<open>Unknown state characters\<close>

lemma lamps_off_setLaneState:
  assumes "c \<noteq> CHR ''R''" and "c \<noteq> CHR ''Y''" and "c \<noteq> CHR ''G''"
  shows "lamps l (setLaneState l c st) = [False, False, False]"
  using assms
  by (simp add: lamps_def lane_pins_def get_lane_setLaneState pin_level_setLaneState Let_def)

lemma wire_line_single: "wire_line [(l, c)] = directive l c"
  by simp

text \<open>
  C7. A segment with a lane code the sketch knows and a state character other than R, Y
  and G (a lowercase letter, or O, say) is passed on to \<^verbatim>\<open>setLaneState\<close>, which turns the
  three outputs of the lane off, records the letter O, and prints one diagnostic and
  nothing else. When such a segment arrives as a line, the sketch prints the echo and the
  diagnostic, leaves the lane off, and the accumulator is ready for the next line.
\<close>

theorem unknown_state_turns_lane_off:
  assumes "c \<noteq> CHR ''R''" and "c \<noteq> CHR ''Y''" and "c \<noteq> CHR ''G''"
  shows "process_part (directive l c) st = setLaneState l c st \<and>
         lamps l (setLaneState l c st) = [False, False, False] \<and>
         active_outputs l (setLaneState l c st) = 0 \<and>
         currentLed (get_lane l (setLaneState l c st)) = CHR ''O'' \<and>
         serial_out (setLaneState l c st) = serial_out st @ unknown_state_diagnostic c \<and>
         (ready st \<and> c \<noteq> COMMA \<and> c \<noteq> NUL \<and> c \<noteq> NEWLINE \<longrightarrow>
            lamps l (feed (directive l c @ [NEWLINE]) st) = [False, False, False] \<and>
            currentLed (get_lane l (feed (directive l c @ [NEWLINE]) st)) = CHR ''O'' \<and>
            serial_out (feed (directive l c @ [NEWLINE]) st) =
              serial_out st @ ''Received command: '' @ directive l c @ CRLF @
              unknown_state_diagnostic c \<and>
            ready (feed (directive l c @ [NEWLINE]) st))"
proof (intro conjI impI)
  show "process_part (directive l c) st = setLaneState l c st"
    by (rule process_part_directive)
  show off: "lamps l (setLaneState l c st) = [False, False, False]" for st
    using assms by (rule lamps_off_setLaneState)
  then show "active_outputs l (setLaneState l c st) = 0"
    by (simp add: active_outputs_def)
  show led: "currentLed (get_lane l (setLaneState l c st)) = CHR ''O''" for st
    using assms by (simp add: currentLed_setLaneState recorded_def)
  show out: "serial_out (setLaneState l c st) = serial_out st @ unknown_state_diagnostic c" for st
    using assms by (simp add: serial_out_setLaneState unknown_state_diagnostic_def)
  assume "ready st \<and> c \<noteq> COMMA \<and> c \<noteq> NUL \<and> c \<noteq> NEWLINE"
  then have r: "ready st" and chars: "\<forall>(l', c') \<in> set [(l, c)]. c' \<noteq> COMMA \<and> c' \<noteq> NUL \<and> c' \<noteq> NEWLINE"
    by simp_all
  have len: "length (wire_line [(l, c)]) < SERIAL_BUFFER_SIZE"
    by (simp add: directive_def SERIAL_BUFFER_SIZE_def)
  let ?echo = "Serial_println (directive l c) (Serial_print ''Received command: '' st)"
  have run: "ignoring_buffer (feed (directive l c @ [NEWLINE]) st) =
             ignoring_buffer (setLaneState l c ?echo)"
    using feed_wire_line(1) [OF r chars len] by (simp only: wire_line_single apply_directives_simps)
  show "lamps l (feed (directive l c @ [NEWLINE]) st) = [False, False, False]"
    using ignoring_buffer_fields(7) [OF run, of l] by (simp only: off)
  show "currentLed (get_lane l (feed (directive l c @ [NEWLINE]) st)) = CHR ''O''"
    using ignoring_buffer_fields(1) [OF run, of l] by (simp only: led)
  show "serial_out (feed (directive l c @ [NEWLINE]) st) =
          serial_out st @ ''Received command: '' @ directive l c @ CRLF @ unknown_state_diagnostic c"
    using ignoring_buffer_fields(4) [OF run] by (simp add: out)
  show "ready (feed (directive l c @ [NEWLINE]) st)"
    using feed_wire_line(2) [OF r chars len] by (simp only: wire_line_single)
qed

theorem unknown_state_turns_lane_off_witness:
  "let st = setup_sketch (boot (\<lambda>p. False) (\<lambda>p. False))
   in CHR ''Z'' \<noteq> CHR ''R'' \<and> CHR ''Z'' \<noteq> CHR ''Y'' \<and> CHR ''Z'' \<noteq> CHR ''G'' \<and>
      process_part ''N:Z'' st = setLaneState North (CHR ''Z'') st \<and>
      lamps North (setLaneState North (CHR ''Z'') st) = [False, False, False] \<and>
      currentLed (get_lane North (setLaneState North (CHR ''Z'') st)) = CHR ''O'' \<and>
      ready st \<and> CHR ''Z'' \<noteq> COMMA \<and> CHR ''Z'' \<noteq> NUL \<and> CHR ''Z'' \<noteq> NEWLINE \<and>
      lamps North (feed (''N:Z'' @ [NEWLINE]) st) = [False, False, False] \<and>
      currentLed (get_lane North (feed (''N:Z'' @ [NEWLINE]) st)) = CHR ''O'' \<and>
      serial_out (feed (''N:Z'' @ [NEWLINE]) st) =
        serial_out st @ ''Received command: N:Z'' @ CRLF @
        ''Unknown light state '' @ [CHR 0x27] @ ''Z'' @ [CHR 0x27] @
        '' for a lane. Turning all off.'' @ CRLF \<and>
      ready (feed (''N:Z'' @ [NEWLINE]) st)"
  using unknown_state_turns_lane_off
          [of "CHR ''Z''" North "setup_sketch (boot (\<lambda>p. False) (\<lambda>p. False))"]
        ready_setup [of "\<lambda>p. False" "\<lambda>p. False"]
  by (simp add: directive_def unknown_state_diagnostic_def Let_def)

section \<open>The empty line\<close>

lemma processCommand_empty:
  assumes "serialBuffer st = [] \<or> hd (serialBuffer st) = NUL"
  shows "processCommand st = Serial_println [] (Serial_print ''Received command: '' st)"
proof (cases "serialBuffer st")
  case Nil
  then have "c_str (serialBuffer st) 0 = []" "strtok (serialBuffer st) 0 = (None, [], 0)"
    by (simp_all add: c_str_def strtok_def strspn_comma_def)
  then show ?thesis
    by (simp add: processCommand_def Let_def Nil [symmetric] Serial_print_def Serial_println_def)
next
  case (Cons x xs)
  with assms have x: "x = NUL" by simp
  have "c_str (serialBuffer st) 0 = []" "strtok (serialBuffer st) 0 = (None, serialBuffer st, 0)"
    by (simp_all add: c_str_def strtok_def strspn_comma_def Cons x)
  then show ?thesis
    by (simp add: processCommand_def Let_def Serial_print_def Serial_println_def)
qed

text \<open>
  C9. A newline that arrives when no byte has been accumulated: the sketch writes the
  terminator at the start of the buffer and prints the echo of an empty command, and that
  is all. The line has no segment, so no directive is applied; the lanes, the levels of the
  pins, the log of pin writes and the cursor stay as they were, and no diagnostic is printed.
\<close>

theorem empty_line_is_a_no_op:
  assumes "serialBufferIndex st = 0"
  shows "feed [NEWLINE] st =
           st\<lparr>serialBuffer := (serialBuffer st)[0 := NUL],
              serial_out := serial_out st @ ''Received command: '' @ CRLF\<rparr> \<and>
         segments [] = []"
proof -
  let ?st1 = "st\<lparr>serialBuffer := (serialBuffer st)[0 := NUL]\<rparr>"
  have "serialBuffer ?st1 = [] \<or> hd (serialBuffer ?st1) = NUL"
    by (cases "serialBuffer st") simp_all
  then have "processCommand ?st1 = Serial_println [] (Serial_print ''Received command: '' ?st1)"
    by (rule processCommand_empty)
  then have "loop (Some NEWLINE) st =
           st\<lparr>serialBuffer := (serialBuffer st)[0 := NUL],
              serial_out := serial_out st @ ''Received command: '' @ CRLF\<rparr>"
    using assms by (simp add: loop_newline Serial_print_def Serial_println_def)
  then show ?thesis by (simp add: feed_def)
qed

theorem empty_line_is_a_no_op_witness:
  "let st = setup_sketch (boot (\<lambda>p. False) (\<lambda>p. False))
   in serialBufferIndex st = 0 \<and>
      feed [NEWLINE] st =
        st\<lparr>serialBuffer := (serialBuffer st)[0 := NUL],
           serial_out := serial_out st @ ''Received command: '' @ CRLF\<rparr>"
  using empty_line_is_a_no_op [of "setup_sketch (boot (\<lambda>p. False) (\<lambda>p. False))"]
        ready_setup [of "\<lambda>p. False" "\<lambda>p. False"]
  by (simp add: ready_def Let_def)

section \<open>Applying a directive again\<close>

lemma call_writes_eq:
  "call_writes l c st =
     (let lane = get_lane l st
      in [(redPin lane, False), (yellowPin lane, False), (greenPin lane, False)] @
         (if c = CHR ''R'' then [(redPin lane, True)]
          else if c = CHR ''Y'' then [(yellowPin lane, True)]
          else if c = CHR ''G'' then [(greenPin lane, True)]
          else []))"
  by (simp add: call_writes_def pin_log_setLaneState Let_def)

lemma last_lamp_trace: "last (lamp_trace l c st) = lamps l (setLaneState l c st)"
  by (simp add: lamp_trace_def call_writes_eq Let_def lamps_def pin_level_setLaneState)

lemma lamp_trace_off: "lamp_trace l c st ! 2 = [False, False, False]"
  by (simp add: lamp_trace_def call_writes_eq Let_def lane_pins_def)

lemma length_lamp_trace: "3 \<le> length (lamp_trace l c st)"
  by (simp add: lamp_trace_def call_writes_eq Let_def)

lemma setLaneState_twice:
  "pin_level (setLaneState l c (setLaneState l c st)) = pin_level (setLaneState l c st)"
  "get_lane l' (setLaneState l c (setLaneState l c st)) = get_lane l' (setLaneState l c st)"
  by (auto simp: pin_level_setLaneState get_lane_setLaneState Let_def fun_eq_iff)

text \<open>
  C8, as the sketch has it. Applying the same directive twice in succession ends in the
  lamp state, the pin levels and the lane records that applying it once ends in. Every
  call first drives the three outputs of the lane LOW and then the requested one HIGH: so
  while a call runs the lane shows all lamps off, also when it already showed the
  requested state, and it shows the requested state when the call returns.
\<close>

theorem setLaneState_idempotent_end_state:
  "pin_level (setLaneState l c (setLaneState l c st)) = pin_level (setLaneState l c st) \<and>
   get_lane l' (setLaneState l c (setLaneState l c st)) = get_lane l' (setLaneState l c st) \<and>
   lamps l' (setLaneState l c (setLaneState l c st)) = lamps l' (setLaneState l c st) \<and>
   3 \<le> length (lamp_trace l c (setLaneState l c st)) \<and>
   lamp_trace l c (setLaneState l c st) ! 2 = [False, False, False] \<and>
   last (lamp_trace l c (setLaneState l c st)) = lamps l (setLaneState l c st)"
proof -
  have "lamps l' (setLaneState l c (setLaneState l c st)) = lamps l' (setLaneState l c st)" for l'
    by (simp add: lamps_def setLaneState_twice)
  then show ?thesis
    by (simp add: setLaneState_twice lamp_trace_off length_lamp_trace last_lamp_trace)
qed

text \<open>
  The claim as the specification states it (no passage through a different lamp state
  when the requested state is the current one) fails: after \<^verbatim>\<open>setup\<close> lane North is Red,
  with the red lamp alone, and \<^verbatim>\<open>setLaneState\<close> with R on it shows all lamps off after
  each of its first three writes.
\<close>

theorem setLaneState_flickers:
  "let st = setup_sketch (boot (\<lambda>p. False) (\<lambda>p. False))
   in currentLed (get_lane North st) = CHR ''R'' \<and>
      lamps North st = [True, False, False] \<and>
      call_writes North (CHR ''R'') st = [(23, False), (22, False), (21, False), (23, True)] \<and>
      lamp_trace North (CHR ''R'') st =
        [[False, False, False], [False, False, False], [False, False, False],
         [True, False, False]] \<and>
      \<not> list_all (\<lambda>shown. shown = lamps North st) (lamp_trace North (CHR ''R'') st)"
proof -
  let ?st = "setup_sketch (boot (\<lambda>p. False) (\<lambda>p. False))"
  have w: "wired ?st" by (simp add: wired_setup wired_boot)
  have red: "currentLed (get_lane North ?st) = CHR ''R''" "lamps North ?st = [True, False, False]"
    using setup_red [OF wired_boot, of North "\<lambda>p. False" "\<lambda>p. False"] by simp_all
  have pins: "lane_pins North ?st = [23, 22, 21]"
    using wiredD [OF w, of North] by (simp add: pin_defs)
  then have lane: "redPin (get_lane North ?st) = 23" "yellowPin (get_lane North ?st) = 22"
    "greenPin (get_lane North ?st) = 21"
    by (simp_all add: lane_pins_def)
  have writes: "call_writes North (CHR ''R'') ?st = [(23, False), (22, False), (21, False), (23, True)]"
    by (simp add: call_writes_eq Let_def lane)
  from red(2) have lv: "pin_level ?st 22 = False" "pin_level ?st 21 = False"
    by (simp_all add: lamps_def pins)
  have trace: "lamp_trace North (CHR ''R'') ?st =
        [[False, False, False], [False, False, False], [False, False, False],
         [True, False, False]]"
    by (simp add: lamp_trace_def writes pins lv)
  show ?thesis
    unfolding Let_def by (simp only: red writes trace) simp
qed

section \<open>Empty segments\<close>

lemma segments_trailing_comma: "segments (a @ [COMMA]) = segments a"
  using segments_append [of a "[]"] by simp

lemma segments_double_comma: "segments (a @ COMMA # COMMA # b) = segments (a @ COMMA # b)"
  by (simp add: segments_append)

lemma segments_nonempty: "[] \<notin> set (segments s)"
  by (simp add: segments_def)

text \<open>
  C10. Of the segments a line splits into at its commas, the sketch processes those that
  are not empty, in order, and nothing else after the echo: an empty segment, as a
  leading, a trailing or a doubled comma makes, is never handed to the body of the loop,
  so it prints no diagnostic and changes nothing. Dropping a leading or trailing comma
  from a command, or one of two adjacent commas, leaves the segments that are processed
  the same.
\<close>

theorem empty_segments_are_dropped:
  assumes "ready st" and "NEWLINE \<notin> set line" and "length line < SERIAL_BUFFER_SIZE"
  shows "(let cmd = takeWhile (\<lambda>c. c \<noteq> NUL) line
          in ignoring_buffer (feed (line @ [NEWLINE]) st) =
             ignoring_buffer
               (fold process_part (filter (\<lambda>t. t \<noteq> []) (split_commas cmd))
                  (Serial_println cmd (Serial_print ''Received command: '' st)))) \<and>
         segments (COMMA # a) = segments a \<and>
         segments (a @ [COMMA]) = segments a \<and>
         segments (a @ COMMA # COMMA # b) = segments (a @ COMMA # b)"
  using feed_line(1) [OF assms]
  by (simp add: run_line_def segments_def [symmetric] segments_trailing_comma
      segments_double_comma Let_def)

theorem empty_segments_are_dropped_witness:
  "let st = setup_sketch (boot (\<lambda>p. False) (\<lambda>p. False));
       st' = feed ('',,N:G,,E:Y,'' @ [NEWLINE]) st
   in ready st \<and> NEWLINE \<notin> set '',,N:G,,E:Y,'' \<and>
      length '',,N:G,,E:Y,'' < SERIAL_BUFFER_SIZE \<and>
      split_commas '',,N:G,,E:Y,'' = [[], [], ''N:G'', [], ''E:Y'', []] \<and>
      ignoring_buffer st' =
        ignoring_buffer
          (setLaneState East (CHR ''Y'') (setLaneState North (CHR ''G'')
             (Serial_println '',,N:G,,E:Y,'' (Serial_print ''Received command: '' st)))) \<and>
      serial_out st' = serial_out st @ ''Received command: ,,N:G,,E:Y,'' @ CRLF"
proof -
  let ?st = "setup_sketch (boot (\<lambda>p. False) (\<lambda>p. False))"
  let ?line = "'',,N:G,,E:Y,''"
  have r: "ready ?st" by (rule ready_setup)
  have nl: "NEWLINE \<notin> set ?line" by simp
  have len: "length ?line < SERIAL_BUFFER_SIZE" by (simp add: SERIAL_BUFFER_SIZE_def)
  have parts: "process_part ''N:G'' s = setLaneState North (CHR ''G'') s"
    "process_part ''E:Y'' s = setLaneState East (CHR ''Y'') s" for s
    by (simp_all add: process_part_def)
  from empty_segments_are_dropped [OF r nl len]
  have run: "ignoring_buffer (feed (?line @ [NEWLINE]) ?st) =
        ignoring_buffer
          (setLaneState East (CHR ''Y'') (setLaneState North (CHR ''G'')
             (Serial_println ?line (Serial_print ''Received command: '' ?st))))"
    by (simp add: Let_def parts)
  have "serial_out (feed (?line @ [NEWLINE]) ?st) =
        serial_out ?st @ ''Received command: ,,N:G,,E:Y,'' @ CRLF"
    using ignoring_buffer_fields(4) [OF run] by (simp add: serial_out_setLaneState)
  with r run show ?thesis
    by (simp add: Let_def SERIAL_BUFFER_SIZE_def)
qed

section \<open>Segments the sketch skips\<close>

lemma run_line_N_G_X_R_E_Y:
  "run_line ''N:G,X:R,E:Y'' st =
     setLaneState East (CHR ''Y'')
       (Serial_println ''X'' (Serial_print ''Unknown lane code: ''
          (setLaneState North (CHR ''G'')
             (Serial_println ''N:G,X:R,E:Y'' (Serial_print ''Received command: '' st)))))"
  by (simp add: run_line_def segments_def process_part_def Let_def)

lemma partial_failure_example:
  assumes "ready st" and "wired st"
  shows "let st' = feed (''N:G,X:R,E:Y'' @ [NEWLINE]) st
         in currentLed (get_lane North st') = CHR ''G'' \<and>
            lamps North st' = [False, False, True] \<and>
            currentLed (get_lane East st') = CHR ''Y'' \<and>
            lamps East st' = [False, True, False] \<and>
            get_lane South st' = get_lane South st \<and> lamps South st' = lamps South st \<and>
            get_lane West st' = get_lane West st \<and> lamps West st' = lamps West st \<and>
            serial_out st' =
              serial_out st @ ''Received command: N:G,X:R,E:Y'' @ CRLF @
              ''Unknown lane code: X'' @ CRLF"
proof -
  let ?st' = "feed (''N:G,X:R,E:Y'' @ [NEWLINE]) st"
  let ?echo = "Serial_println ''N:G,X:R,E:Y'' (Serial_print ''Received command: '' st)"
  let ?n = "setLaneState North (CHR ''G'') ?echo"
  let ?x = "Serial_println ''X'' (Serial_print ''Unknown lane code: '' ?n)"
  let ?e = "setLaneState East (CHR ''Y'') ?x"
  have "ignoring_buffer ?st' = ignoring_buffer (run_line ''N:G,X:R,E:Y'' st)"
    using feed_line(1) [OF assms(1), of "''N:G,X:R,E:Y''"] by (simp add: SERIAL_BUFFER_SIZE_def)
  then have run: "ignoring_buffer ?st' = ignoring_buffer ?e"
    by (simp only: run_line_N_G_X_R_E_Y)
  note f = ignoring_buffer_fields [OF run]
  have w: "wired ?echo" "wired ?x" using assms(2) by simp_all
  have "currentLed (get_lane North ?st') = CHR ''G''"
    by (simp only: f(1)) (simp add: get_lane_setLaneState recorded_def)
  moreover have "lamps North ?st' = [False, False, True]"
    using w by (simp only: f(7)) (simp add: lamps_other_setLaneState lamps_setLaneState)
  moreover have "currentLed (get_lane East ?st') = CHR ''Y''"
    by (simp only: f(1)) (simp add: get_lane_setLaneState recorded_def)
  moreover have "lamps East ?st' = [False, True, False]"
    using w by (simp only: f(7)) (simp add: lamps_setLaneState)
  moreover have "get_lane South ?st' = get_lane South st" "get_lane West ?st' = get_lane West st"
    by (simp_all only: f(1)) (simp_all add: get_lane_setLaneState)
  moreover have "lamps South ?st' = lamps South st" "lamps West ?st' = lamps West st"
    using w by (simp_all only: f(7)) (simp_all add: lamps_other_setLaneState)
  moreover have "serial_out ?st' =
              serial_out st @ ''Received command: N:G,X:R,E:Y'' @ CRLF @
              ''Unknown lane code: X'' @ CRLF"
    by (simp only: f(4)) (simp add: serial_out_setLaneState)
  ultimately show ?thesis by (simp only: Let_def simp_thms)
qed

text \<open>
  C4, as the sketch has it. After the echo the sketch runs the body of its loop on every
  segment of the line that is not empty, in order, whatever the body did with the
  segments before. On a segment that is not empty and is malformed (its length is not 3,
  or its second character is not a colon) the body prints one diagnostic and does nothing
  else; on a well-formed segment whose lane code is none of N, E, S, W it prints one
  diagnostic and does nothing else. For the line \<^verbatim>\<open>N:G,X:R,E:Y\<close>: North ends Green, East
  ends Yellow, South and West keep their records and lamps, and after the echo exactly the
  diagnostic for \<^verbatim>\<open>X:R\<close> is printed.
\<close>

theorem skipped_segments_do_not_abort_the_line:
  assumes "ready st" and "wired st"
  shows "(\<forall>line. NEWLINE \<notin> set line \<and> length line < SERIAL_BUFFER_SIZE \<longrightarrow>
            ignoring_buffer (feed (line @ [NEWLINE]) st) =
              ignoring_buffer (run_line (takeWhile (\<lambda>c. c \<noteq> NUL) line) st)) \<and>
         (\<forall>part s. part \<noteq> [] \<and> (length part \<noteq> 3 \<or> part ! 1 \<noteq> COLON) \<longrightarrow>
            process_part part s =
              Serial_println part (Serial_print ''Malformed command part: '' s)) \<and>
         (\<forall>part s. length part = 3 \<and> part ! 1 = COLON \<and> part ! 0 \<notin> set ''NESW'' \<longrightarrow>
            process_part part s =
              Serial_println [part ! 0] (Serial_print ''Unknown lane code: '' s)) \<and>
         (let st' = feed (''N:G,X:R,E:Y'' @ [NEWLINE]) st
          in currentLed (get_lane North st') = CHR ''G'' \<and>
             lamps North st' = [False, False, True] \<and>
             currentLed (get_lane East st') = CHR ''Y'' \<and>
             lamps East st' = [False, True, False] \<and>
             get_lane South st' = get_lane South st \<and> lamps South st' = lamps South st \<and>
             get_lane West st' = get_lane West st \<and> lamps West st' = lamps West st \<and>
             serial_out st' =
               serial_out st @ ''Received command: N:G,X:R,E:Y'' @ CRLF @
               ''Unknown lane code: X'' @ CRLF)"
proof (intro conjI allI impI)
  fix line
  assume "NEWLINE \<notin> set line \<and> length line < SERIAL_BUFFER_SIZE"
  then have "NEWLINE \<notin> set line" "length line < SERIAL_BUFFER_SIZE" by simp_all
  with assms(1) show "ignoring_buffer (feed (line @ [NEWLINE]) st) =
              ignoring_buffer (run_line (takeWhile (\<lambda>c. c \<noteq> NUL) line) st)"
    by (rule feed_line(1))
next
  fix part s
  assume "part \<noteq> [] \<and> (length part \<noteq> 3 \<or> part ! 1 \<noteq> COLON)"
  then have "length part \<noteq> 3 \<or> part ! 1 \<noteq> COLON" by (rule conjunct2)
  then show "process_part part s = Serial_println part (Serial_print ''Malformed command part: '' s)"
    by (rule process_part_malformed)
next
  fix part s
  assume "length part = 3 \<and> part ! 1 = COLON \<and> part ! 0 \<notin> set ''NESW''"
  then have "length part = 3" "part ! 1 = COLON" "part ! 0 \<notin> set ''NESW''" by simp_all
  then show "process_part part s = Serial_println [part ! 0] (Serial_print ''Unknown lane code: '' s)"
    by (rule process_part_unknown_lane)
next
  show "let st' = feed (''N:G,X:R,E:Y'' @ [NEWLINE]) st
          in currentLed (get_lane North st') = CHR ''G'' \<and>
             lamps North st' = [False, False, True] \<and>
             currentLed (get_lane East st') = CHR ''Y'' \<and>
             lamps East st' = [False, True, False] \<and>
             get_lane South st' = get_lane South st \<and> lamps South st' = lamps South st \<and>
             get_lane West st' = get_lane West st \<and> lamps West st' = lamps West st \<and>
             serial_out st' =
               serial_out st @ ''Received command: N:G,X:R,E:Y'' @ CRLF @
               ''Unknown lane code: X'' @ CRLF"
    using assms by (rule partial_failure_example)
qed

theorem skipped_segments_do_not_abort_the_line_witness:
  "let st = setup_sketch (boot (\<lambda>p. False) (\<lambda>p. False));
       st' = feed (''N:G,X:R,E:Y'' @ [NEWLINE]) st
   in ready st \<and> wired st \<and>
      NEWLINE \<notin> set ''S:G,bad,W:Y'' \<and> length ''S:G,bad,W:Y'' < SERIAL_BUFFER_SIZE \<and>
      ignoring_buffer (feed (''S:G,bad,W:Y'' @ [NEWLINE]) st) =
        ignoring_buffer (run_line ''S:G,bad,W:Y'' st) \<and>
      ''bad'' \<noteq> [] \<and> ''bad'' ! 1 \<noteq> COLON \<and>
      process_part ''bad'' st =
        Serial_println ''bad'' (Serial_print ''Malformed command part: '' st) \<and>
      length ''X:R'' = 3 \<and> ''X:R'' ! 1 = COLON \<and> ''X:R'' ! 0 \<notin> set ''NESW'' \<and>
      process_part ''X:R'' st = Serial_println ''X'' (Serial_print ''Unknown lane code: '' st) \<and>
      currentLed (get_lane North st') = CHR ''G'' \<and>
      lamps North st' = [False, False, True] \<and>
      currentLed (get_lane East st') = CHR ''Y'' \<and>
      lamps East st' = [False, True, False] \<and>
      get_lane South st' = get_lane South st \<and> lamps South st' = lamps South st \<and>
      get_lane West st' = get_lane West st \<and> lamps West st' = lamps West st \<and>
      serial_out st' =
        serial_out st @ ''Received command: N:G,X:R,E:Y'' @ CRLF @ ''Unknown lane code: X'' @ CRLF"
proof -
  let ?st = "setup_sketch (boot (\<lambda>p. False) (\<lambda>p. False))"
  have r: "ready ?st" by (rule ready_setup)
  have w: "wired ?st" by (simp add: wired_setup wired_boot)
  note all = skipped_segments_do_not_abort_the_line [OF r w]
  note line = all [THEN conjunct1, rule_format, of "''S:G,bad,W:Y''"]
  note malformed = all [THEN conjunct2, THEN conjunct1, rule_format, of "''bad''" ?st]
  note unknown = all [THEN conjunct2, THEN conjunct2, THEN conjunct1, rule_format, of "''X:R''" ?st]
  note example = all [THEN conjunct2, THEN conjunct2, THEN conjunct2]
  have 1: "ignoring_buffer (feed (''S:G,bad,W:Y'' @ [NEWLINE]) ?st) =
        ignoring_buffer (run_line ''S:G,bad,W:Y'' ?st)"
    using line by (simp add: SERIAL_BUFFER_SIZE_def)
  have 2: "process_part ''bad'' ?st =
        Serial_println ''bad'' (Serial_print ''Malformed command part: '' ?st)"
    using malformed by simp
  have 3: "process_part ''X:R'' ?st = Serial_println ''X'' (Serial_print ''Unknown lane code: '' ?st)"
    using unknown by simp
  have 4: "NEWLINE \<notin> set ''S:G,bad,W:Y'' \<and> length ''S:G,bad,W:Y'' < SERIAL_BUFFER_SIZE \<and>
      ''bad'' \<noteq> [] \<and> ''bad'' ! 1 \<noteq> COLON \<and>
      length ''X:R'' = 3 \<and> ''X:R'' ! 1 = COLON \<and> ''X:R'' ! 0 \<notin> set ''NESW''"
    by (simp add: SERIAL_BUFFER_SIZE_def)
  from r w 1 2 3 4 example show ?thesis
    by (simp only: Let_def simp_thms)
qed

text \<open>
  The claim as the specification states it counts every segment whose length is not 3 as
  malformed and has each print a diagnostic. The line \<^verbatim>\<open>N:G,,E:Y\<close> has an empty segment
  between its two commas, and the sketch prints the echo and no diagnostic.
\<close>

theorem empty_segment_prints_no_diagnostic:
  "let st = setup_sketch (boot (\<lambda>p. False) (\<lambda>p. False));
       st' = feed (''N:G,,E:Y'' @ [NEWLINE]) st
   in split_commas ''N:G,,E:Y'' = [''N:G'', [], ''E:Y''] \<and>
      length ([] :: string) \<noteq> 3 \<and>
      serial_out st' = serial_out st @ ''Received command: N:G,,E:Y'' @ CRLF \<and>
      currentLed (get_lane North st') = CHR ''G'' \<and>
      currentLed (get_lane East st') = CHR ''Y''"
proof -
  let ?st = "setup_sketch (boot (\<lambda>p. False) (\<lambda>p. False))"
  let ?st' = "feed (''N:G,,E:Y'' @ [NEWLINE]) ?st"
  have "ignoring_buffer ?st' = ignoring_buffer (run_line ''N:G,,E:Y'' ?st)"
    using feed_line(1) [OF ready_setup, of "''N:G,,E:Y''"] by (simp add: SERIAL_BUFFER_SIZE_def)
  also have "run_line ''N:G,,E:Y'' ?st =
     setLaneState East (CHR ''Y'') (setLaneState North (CHR ''G'')
       (Serial_println ''N:G,,E:Y'' (Serial_print ''Received command: '' ?st)))"
    by (simp add: run_line_def segments_def process_part_def Let_def)
  finally have run: "ignoring_buffer ?st' = ignoring_buffer
     (setLaneState East (CHR ''Y'') (setLaneState North (CHR ''G'')
       (Serial_println ''N:G,,E:Y'' (Serial_print ''Received command: '' ?st))))" .
  note f = ignoring_buffer_fields [OF run]
  have "serial_out ?st' = serial_out ?st @ ''Received command: N:G,,E:Y'' @ CRLF"
    by (simp only: f(4)) (simp add: serial_out_setLaneState)
  moreover have "currentLed (get_lane North ?st') = CHR ''G''"
    "currentLed (get_lane East ?st') = CHR ''Y''"
    by (simp_all only: f(1)) (simp_all add: get_lane_setLaneState recorded_def)
  ultimately show ?thesis by (simp add: Let_def)
qed

section \<open>Overflow of the line buffer\<close>

text \<open>
  In every state the sketch reaches, the buffer has its 64 bytes and the cursor is at most
  63: the writes \<^verbatim>\<open>loop\<close> makes at the cursor, the terminator included, fall inside the
  buffer.
\<close>

lemma reachable_buffer_bounds:
  "reachable st \<Longrightarrow>
     length (serialBuffer st) = SERIAL_BUFFER_SIZE \<and> serialBufferIndex st < SERIAL_BUFFER_SIZE"
proof (induction rule: reachable.induct)
  case (after_setup modes levels)
  show ?case using ready_setup [of modes levels] by (simp add: ready_def SERIAL_BUFFER_SIZE_def)
next
  case (after_loop st avail)
  then show ?case
    by (cases avail) (auto simp: loop_def Let_def SERIAL_BUFFER_SIZE_def)
qed

lemma feed_append: "feed (a @ b) st = feed b (feed a st)"
  by (simp add: feed_def)

lemma ignoring_buffer_run_line:
  "ignoring_buffer (run_line cmd st) = run_line cmd (ignoring_buffer st)"
  by (simp add: ignoring_buffer_def run_line_updates)

text \<open>
  Sixty-four bytes other than the newline, arriving when the accumulator is ready: the
  first 63 are stored, the 64th finds the buffer full, and the sketch prints the overflow
  diagnostic and moves the cursor back to the start. Nothing else changes, and the
  accumulator is ready: it stores the bytes that follow, whether or not a newline has
  arrived in between.
\<close>

lemma feed_overflow:
  assumes "ready st" and "NEWLINE \<notin> set junk" and "length junk = SERIAL_BUFFER_SIZE"
  shows "ignoring_buffer (feed junk st) =
           ignoring_buffer (Serial_println ''Error: Serial buffer overflow. Command ignored.'' st)"
    and "ready (feed junk st)"
proof -
  from assms(1) have len: "length (serialBuffer st) = SERIAL_BUFFER_SIZE"
    and i0: "serialBufferIndex st = 0"
    by (simp_all add: ready_def)
  from assms(3) obtain stored b where junk: "junk = stored @ [b]"
    by (cases junk rule: rev_cases) (simp_all add: SERIAL_BUFFER_SIZE_def)
  with assms have stored: "NEWLINE \<notin> set stored" "length stored = SERIAL_BUFFER_SIZE - 1"
    and b: "b \<noteq> NEWLINE"
    by auto
  define st1 where "st1 = st\<lparr>serialBuffer := stored @ drop (length stored) (serialBuffer st),
                              serialBufferIndex := length stored\<rparr>"
  have acc: "feed stored st = st1"
    using feed_accumulate [of stored st] stored len i0
    by (simp add: st1_def SERIAL_BUFFER_SIZE_def)
  have full: "\<not> serialBufferIndex st1 < SERIAL_BUFFER_SIZE - 1"
    by (simp add: st1_def stored)
  have all: "feed junk st =
             (Serial_println ''Error: Serial buffer overflow. Command ignored.'' st1)
               \<lparr>serialBufferIndex := 0\<rparr>"
    using b full by (simp add: junk feed_append acc) (simp add: feed_def loop_def)
  show "ignoring_buffer (feed junk st) =
           ignoring_buffer (Serial_println ''Error: Serial buffer overflow. Command ignored.'' st)"
    using i0 by (simp add: all st1_def ignoring_buffer_def)
  show "ready (feed junk st)"
    using len stored by (simp add: all st1_def ready_def SERIAL_BUFFER_SIZE_def)
qed

text \<open>
  An over-long line: 64 bytes, then up to 63 more, then the newline. The sketch reports
  the overflow at the 64th byte, and at the newline it parses the bytes of the same line
  that came after the 64th as a command.
\<close>

lemma feed_overlong_line:
  assumes "ready st" and "NEWLINE \<notin> set junk" and "length junk = SERIAL_BUFFER_SIZE"
    and "NEWLINE \<notin> set rest" and "length rest < SERIAL_BUFFER_SIZE"
  shows "ignoring_buffer (feed (junk @ rest @ [NEWLINE]) st) =
           ignoring_buffer (run_line (takeWhile (\<lambda>c. c \<noteq> NUL) rest)
             (Serial_println ''Error: Serial buffer overflow. Command ignored.'' st))"
    and "ready (feed (junk @ rest @ [NEWLINE]) st)"
proof -
  note ov = feed_overflow [OF assms(1,2,3)]
  note ln = feed_line [OF ov(2) assms(4,5)]
  have "ignoring_buffer (feed (junk @ rest @ [NEWLINE]) st) =
        run_line (takeWhile (\<lambda>c. c \<noteq> NUL) rest) (ignoring_buffer (feed junk st))"
    using ln(1) by (simp only: feed_append ignoring_buffer_run_line)
  then show "ignoring_buffer (feed (junk @ rest @ [NEWLINE]) st) =
           ignoring_buffer (run_line (takeWhile (\<lambda>c. c \<noteq> NUL) rest)
             (Serial_println ''Error: Serial buffer overflow. Command ignored.'' st))"
    by (simp only: ov(1) ignoring_buffer_run_line)
  show "ready (feed (junk @ rest @ [NEWLINE]) st)"
    using ln(2) by (simp only: feed_append)
qed

text \<open>
  C3 does not hold of the sketch. A line of 17 directives, 67 bytes, sent after \<^verbatim>\<open>setup\<close>:
  the sketch prints the overflow diagnostic, which says the command is ignored, and then
  hands the last three bytes of the same line to the parser, which echoes them as a
  command and turns lane North Green.
\<close>

theorem overlong_line_tail_is_parsed:
  "\<forall>modes levels.
     let st = setup_sketch (boot modes levels);
         line = concat (replicate 16 ''W:R,'') @ ''N:G'';
         st' = feed (line @ [NEWLINE]) st
     in length line = 67 \<and> NEWLINE \<notin> set line \<and>
        currentLed (get_lane North st) = CHR ''R'' \<and>
        serial_out st' =
          serial_out st @ ''Error: Serial buffer overflow. Command ignored.'' @ CRLF @
          ''Received command: N:G'' @ CRLF \<and>
        currentLed (get_lane North st') = CHR ''G'' \<and>
        lamps North st' = [False, False, True]"
proof (intro allI)
  fix modes levels
  let ?st = "setup_sketch (boot modes levels)"
  let ?junk = "concat (replicate 16 ''W:R,'')"
  let ?err = "Serial_println ''Error: Serial buffer overflow. Command ignored.'' ?st"
  have junk: "NEWLINE \<notin> set ?junk" "length ?junk = SERIAL_BUFFER_SIZE"
    by (simp_all add: SERIAL_BUFFER_SIZE_def length_concat sum_list_replicate)
  have w: "wired ?st" by (simp add: wired_setup wired_boot)
  have "ignoring_buffer (feed (?junk @ ''N:G'' @ [NEWLINE]) ?st) =
        ignoring_buffer (run_line ''N:G'' ?err)"
    using feed_overlong_line(1) [OF ready_setup junk, of "''N:G''"]
    by (simp add: SERIAL_BUFFER_SIZE_def)
  also have "run_line ''N:G'' ?err =
     setLaneState North (CHR ''G'') (Serial_println ''N:G'' (Serial_print ''Received command: '' ?err))"
    by (simp add: run_line_def segments_def process_part_def Let_def)
  finally have run: "ignoring_buffer (feed ((?junk @ ''N:G'') @ [NEWLINE]) ?st) = ignoring_buffer
     (setLaneState North (CHR ''G'') (Serial_println ''N:G'' (Serial_print ''Received command: '' ?err)))"
    by (simp only: append_assoc)
  note f = ignoring_buffer_fields [OF run]
  have "serial_out (feed ((?junk @ ''N:G'') @ [NEWLINE]) ?st) =
          serial_out ?st @ ''Error: Serial buffer overflow. Command ignored.'' @ CRLF @
          ''Received command: N:G'' @ CRLF"
    by (simp only: f(4)) (simp add: serial_out_setLaneState)
  moreover have "currentLed (get_lane North (feed ((?junk @ ''N:G'') @ [NEWLINE]) ?st)) = CHR ''G''"
    by (simp only: f(1)) (simp add: get_lane_setLaneState recorded_def)
  moreover have "lamps North (feed ((?junk @ ''N:G'') @ [NEWLINE]) ?st) = [False, False, True]"
    using w by (simp only: f(7)) (simp add: lamps_setLaneState)
  moreover have "currentLed (get_lane North ?st) = CHR ''R''"
    using setup_red [OF wired_boot, of North modes levels] by simp
  moreover have "length (?junk @ ''N:G'') = 67" "NEWLINE \<notin> set (?junk @ ''N:G'')"
    using junk by (simp_all add: SERIAL_BUFFER_SIZE_def)
  ultimately show "let st = setup_sketch (boot modes levels);
         line = concat (replicate 16 ''W:R,'') @ ''N:G'';
         st' = feed (line @ [NEWLINE]) st
     in length line = 67 \<and> NEWLINE \<notin> set line \<and>
        currentLed (get_lane North st) = CHR ''R'' \<and>
        serial_out st' =
          serial_out st @ ''Error: Serial buffer overflow. Command ignored.'' @ CRLF @
          ''Received command: N:G'' @ CRLF \<and>
        currentLed (get_lane North st') = CHR ''G'' \<and>
        lamps North st' = [False, False, True]"
    by (simp only: Let_def simp_thms)
qed

end
